theory Spec2Isabelle
  imports Main
begin

section \<open>B+ tree pages\<close>

text \<open>
  A B+ tree page holds the header of \<^verbatim>\<open>BPlusTreePage\<close> and an in-place array
  of (key, value) slots of which the first \<^verbatim>\<open>GetSize()\<close> are valid. The valid
  slots are the list \<open>array\<close>; \<^verbatim>\<open>GetSize()\<close> is its length, and
  \<^verbatim>\<open>SetSize\<close> and \<^verbatim>\<open>IncreaseSize\<close> are the changes of the list. A leaf page
  (\<^verbatim>\<open>BPlusTreeLeafPage\<close>) maps keys to values and has \<^verbatim>\<open>next_page_id_\<close>; an
  internal page (\<^verbatim>\<open>BPlusTreeInternalPage\<close>) maps keys to page ids, the key of
  its slot 0 is unused, and it has no \<^verbatim>\<open>next_page_id_\<close> (the field is carried
  and never read). The key comparator is a template parameter: a three-way
  comparison returning a negative, zero or positive \<^verbatim>\<open>int\<close>; it is passed to
  every function as in the source. A member \<^verbatim>\<open>x_\<close> of the source is written
  \<open>x_'\<close> throughout (no name here may end with an underscore).
\<close>

type_synonym page_id_t = int

record ('k, 'v) BPlusTreePage =
  page_id_' :: page_id_t
  parent_page_id_' :: page_id_t
  next_page_id_' :: page_id_t
  max_size_' :: int
  array :: "('k \<times> 'v) list"

type_synonym ('k, 'v) BPlusTreeLeafPage = "('k, 'v) BPlusTreePage"
type_synonym 'k BPlusTreeInternalPage = "('k, page_id_t) BPlusTreePage"

definition GetSize :: "('k, 'v) BPlusTreePage \<Rightarrow> int" where
  "GetSize p = int (length (array p))"

text \<open>
  The binary search of \<^verbatim>\<open>KeyIndex\<close>: the loop over \<^verbatim>\<open>st\<close> and \<^verbatim>\<open>ed\<close>.
  Reading \<^verbatim>\<open>array[mid]\<close> outside the valid slots is a result of its own
  (\<open>None\<close>), so that the theorem below also says that the search never does so.
\<close>

function KeyIndex_loop ::
  "('k \<Rightarrow> 'k \<Rightarrow> int) \<Rightarrow> ('k \<times> 'v) list \<Rightarrow> 'k \<Rightarrow> int \<Rightarrow> int \<Rightarrow> int option" where
  "KeyIndex_loop comparator arr key st ed =
     (if st \<le> ed then
        (let mid = (ed - st) div 2 + st in
         if mid < 0 \<or> int (length arr) \<le> mid then None
         else if comparator (fst (arr ! nat mid)) key \<ge> 0
              then KeyIndex_loop comparator arr key st (mid - 1)
              else KeyIndex_loop comparator arr key (mid + 1) ed)
      else Some (ed + 1))"
  by pat_completeness auto
termination
  by (relation "measure (\<lambda>(comparator, arr, key, st, ed). nat (ed + 1 - st))") auto

definition KeyIndex ::
  "('k, 'v) BPlusTreeLeafPage \<Rightarrow> 'k \<Rightarrow> ('k \<Rightarrow> 'k \<Rightarrow> int) \<Rightarrow> int option" where
  "KeyIndex p key comparator = KeyIndex_loop comparator (array p) key 0 (GetSize p - 1)"

text \<open>
  What the claims assume of a page and of the comparator: the keys of the valid slots
  are strictly ascending under the comparator (every earlier key compares below every
  later one), and the comparator's "less than" is transitive.
\<close>

definition keys_strictly_ascending :: "('k \<Rightarrow> 'k \<Rightarrow> int) \<Rightarrow> ('k \<times> 'v) list \<Rightarrow> bool" where
  "keys_strictly_ascending comparator arr =
     sorted_wrt (\<lambda>a b. comparator (fst a) (fst b) < 0) arr"

definition comparator_transitive :: "('k \<Rightarrow> 'k \<Rightarrow> int) \<Rightarrow> bool" where
  "comparator_transitive comparator =
     (\<forall>a b c. comparator a b < 0 \<longrightarrow> comparator b c < 0 \<longrightarrow> comparator a c < 0)"

text \<open>A comparator on integer keys, for the examples: -1, 0 or 1.\<close>

definition IntComparator :: "int \<Rightarrow> int \<Rightarrow> int" where
  "IntComparator a b = (if a < b then - 1 else if b < a then 1 else 0)"

text \<open>A leaf page with the keys 1, 3 and 5, for the examples.\<close>

definition example_leaf :: "(int, nat) BPlusTreeLeafPage" where
  "example_leaf = \<lparr>page_id_' = 2, parent_page_id_' = - 1, next_page_id_' = - 1, max_size_' = 4,
                    array = [(1, 10), (3, 30), (5, 50)]\<rparr>"

section \<open>Buffer pool\<close>

text \<open>
  Modelled from the spec: the buffer pool manager is not part of the sources. Its
  contract: \<^verbatim>\<open>FetchPage(id)\<close> returns the page's frame and pins it,
  \<^verbatim>\<open>NewPage(&id)\<close> allocates a page id and returns its frame pinned once,
  \<^verbatim>\<open>UnpinPage(id, dirty)\<close> releases one pin and records the dirty flag,
  \<^verbatim>\<open>DeletePage(id)\<close> removes an unpinned page and returns whether it did. Here
  \<open>pages\<close> holds the content of every existing page (in memory or on disk),
  \<open>pin_count\<close> counts, for every page id, the pins taken minus the unpins, and
  \<^verbatim>\<open>FetchPage\<close> of a page id that does not exist returns the null pointer. The
  frame of a new page has the content \<open>blank\<close>. The pool is taken to be large
  enough: no fetch and no new page fails for want of a free frame.
\<close>

record 'p BufferPoolManager =
  pages :: "page_id_t \<rightharpoonup> 'p"
  pin_count :: "page_id_t \<Rightarrow> int"
  is_dirty :: "page_id_t \<Rightarrow> bool"
  next_new_page_id :: page_id_t

definition pin :: "page_id_t \<Rightarrow> 'p BufferPoolManager \<Rightarrow> 'p BufferPoolManager" where
  "pin page_id bpm = bpm\<lparr>pin_count := (pin_count bpm)(page_id := pin_count bpm page_id + 1)\<rparr>"

definition FetchPage :: "'p BufferPoolManager \<Rightarrow> page_id_t \<Rightarrow> 'p option \<times> 'p BufferPoolManager" where
  "FetchPage bpm page_id =
     (case pages bpm page_id of
        None \<Rightarrow> (None, bpm)
      | Some page \<Rightarrow> (Some page, pin page_id bpm))"

definition UnpinPage :: "'p BufferPoolManager \<Rightarrow> page_id_t \<Rightarrow> bool \<Rightarrow> 'p BufferPoolManager" where
  "UnpinPage bpm page_id dirty =
     bpm\<lparr>pin_count := (pin_count bpm)(page_id := pin_count bpm page_id - 1),
         is_dirty := (is_dirty bpm)(page_id := (is_dirty bpm page_id \<or> dirty))\<rparr>"

definition NewPage :: "'p BufferPoolManager \<Rightarrow> 'p \<Rightarrow> page_id_t \<times> 'p BufferPoolManager" where
  "NewPage bpm blank =
     (next_new_page_id bpm,
      bpm\<lparr>pages := (pages bpm)(next_new_page_id bpm \<mapsto> blank),
          pin_count := (pin_count bpm)(next_new_page_id bpm := pin_count bpm (next_new_page_id bpm) + 1),
          is_dirty := (is_dirty bpm)(next_new_page_id bpm := False),
          next_new_page_id := next_new_page_id bpm + 1\<rparr>)"

definition DeletePage :: "'p BufferPoolManager \<Rightarrow> page_id_t \<Rightarrow> bool \<times> 'p BufferPoolManager" where
  "DeletePage bpm page_id =
     (if pin_count bpm page_id > 0 then (False, bpm)
      else (True, bpm\<lparr>pages := (pages bpm)(page_id := None)\<rparr>))"

text \<open>A write through the pointer to a page's frame.\<close>

definition write_page :: "'p BufferPoolManager \<Rightarrow> page_id_t \<Rightarrow> 'p \<Rightarrow> 'p BufferPoolManager" where
  "write_page bpm page_id page = bpm\<lparr>pages := (pages bpm)(page_id \<mapsto> page)\<rparr>"

section \<open>Transactions\<close>

text \<open>
  Modelled from the spec: the classes \<^verbatim>\<open>RID\<close> and \<^verbatim>\<open>Transaction\<close>
  (\<^verbatim>\<open>common/rid.h\<close>, \<^verbatim>\<open>concurrency/transaction.h\<close>) are used by the sources
  but not part of them. A RID is the pair (page id, slot number). A transaction holds
  its id, its state (initially GROWING), \<^verbatim>\<open>prev_lsn\<close>, the set of shared-locked
  RIDs, the set of exclusively-locked RIDs, the write set (in order), the latched-page
  set of one index operation and the deleted-page set. The two lock sets and the
  deleted-page set are \<^verbatim>\<open>unordered_set\<close>s: lists without duplicates here, with
  \<open>uset_insert\<close> and \<open>uset_erase\<close> (which returns the number of elements erased).
\<close>

type_synonym txn_id_t = int
type_synonym lsn_t = int
type_synonym RID = "page_id_t \<times> int"

definition INVALID_PAGE_ID :: page_id_t where
  "INVALID_PAGE_ID = - 1"

definition INVALID_LSN :: lsn_t where
  "INVALID_LSN = - 1"

datatype TransactionState = GROWING | SHRINKING | COMMITTED | ABORTED

datatype WType = WType_INSERT | WType_DELETE | WType_UPDATE

record WriteRecord =
  rid_' :: RID
  wtype_' :: WType
  tuple_' :: "int list"
  table_' :: nat

record Transaction =
  txn_id_' :: txn_id_t
  state_' :: TransactionState
  prev_lsn_' :: lsn_t
  shared_lock_set_' :: "RID list"
  exclusive_lock_set_' :: "RID list"
  write_set_' :: "WriteRecord list"
  page_set_' :: "page_id_t list"
  deleted_page_set_' :: "page_id_t list"

definition new_Transaction :: "txn_id_t \<Rightarrow> Transaction" where
  "new_Transaction tid =
     \<lparr>txn_id_' = tid, state_' = GROWING, prev_lsn_' = INVALID_LSN, shared_lock_set_' = [],
      exclusive_lock_set_' = [], write_set_' = [], page_set_' = [], deleted_page_set_' = []\<rparr>"

definition uset_insert :: "'a \<Rightarrow> 'a list \<Rightarrow> 'a list" where
  "uset_insert x xs = (if x \<in> set xs then xs else xs @ [x])"

definition uset_erase :: "'a \<Rightarrow> 'a list \<Rightarrow> nat \<times> 'a list" where
  "uset_erase x xs = (if x \<in> set xs then (1, removeAll x xs) else (0, xs))"

section \<open>Lock manager\<close>

text \<open>
  The lock table maps a RID to its queue of requests (\<^verbatim>\<open>TxList\<close>). The table
  mutex and the queue mutexes serialise the calls: each call below runs from its
  start to its return, or to the point where the calling thread blocks in
  \<^verbatim>\<open>TxItem::Wait\<close>, as one step. A call ends in one of three ways: it returns
  a value, it blocks (the request is queued ungranted and the thread waits), or an
  \<^verbatim>\<open>assert\<close> fails and the process aborts.
\<close>

datatype LockMode = SHARED | EXCLUSIVE | UPGRADING

record TxItem =
  tid_' :: txn_id_t
  mode_' :: LockMode
  granted_' :: bool

record TxList =
  locks_' :: "TxItem list"
  hasUpgrading_' :: bool

record LockManager =
  strict_2PL_' :: bool
  lockTable_' :: "RID \<rightharpoonup> TxList"

datatype 'a outcome = Returns 'a | Blocks | AssertionFails

text \<open>\<^verbatim>\<open>lockTable[rid]\<close>: the queue of the RID, inserted empty when the RID has none.\<close>

definition empty_TxList :: TxList where
  "empty_TxList = \<lparr>locks_' = [], hasUpgrading_' = False\<rparr>"

definition table_put :: "('a \<rightharpoonup> 'b) \<Rightarrow> 'a \<Rightarrow> 'b \<Rightarrow> ('a \<rightharpoonup> 'b)" where
  "table_put t k v = t(k \<mapsto> v)"

definition table_erase :: "('a \<rightharpoonup> 'b) \<Rightarrow> 'a \<Rightarrow> ('a \<rightharpoonup> 'b)" where
  "table_erase t k = t(k := None)"

definition lockTable_at :: "LockManager \<Rightarrow> RID \<Rightarrow> TxList \<times> LockManager" where
  "lockTable_at lm rid =
     (case lockTable_' lm rid of
        Some txList \<Rightarrow> (txList, lm)
      | None \<Rightarrow> (empty_TxList, lm\<lparr>lockTable_' := table_put (lockTable_' lm) rid empty_TxList\<rparr>))"

definition set_TxList :: "LockManager \<Rightarrow> RID \<Rightarrow> TxList \<Rightarrow> LockManager" where
  "set_TxList lm rid txList = lm\<lparr>lockTable_' := table_put (lockTable_' lm) rid txList\<rparr>"

definition checkCanGrant :: "TxList \<Rightarrow> LockMode \<Rightarrow> bool" where
  "checkCanGrant txList mode =
     (if locks_' txList = [] then True
      else if mode = SHARED
           then granted_' (last (locks_' txList)) \<and> mode_' (last (locks_' txList)) = SHARED
           else False)"

text \<open>
  \<^verbatim>\<open>TxList::insert\<close>. The result says whether the thread waits. The code after
  \<^verbatim>\<open>Wait()\<close>, which a blocked thread runs once it is granted, is
  \<open>insert_after_wait\<close>.
\<close>

definition insert_after_wait :: "Transaction \<Rightarrow> RID \<Rightarrow> LockMode \<Rightarrow> Transaction" where
  "insert_after_wait txn rid mode =
     (if mode = SHARED
      then txn\<lparr>shared_lock_set_' := uset_insert rid (shared_lock_set_' txn)\<rparr>
      else txn\<lparr>exclusive_lock_set_' := uset_insert rid (exclusive_lock_set_' txn)\<rparr>)"

definition TxList_insert ::
  "TxList \<Rightarrow> Transaction \<Rightarrow> RID \<Rightarrow> LockMode \<Rightarrow> bool \<Rightarrow> bool \<times> TxList \<times> Transaction" where
  "TxList_insert txList txn rid mode granted =
     (let upgradingMode = (mode = UPGRADING);
          mode1 = (if upgradingMode \<and> granted then EXCLUSIVE else mode);
          l1 = txList\<lparr>locks_' := locks_' txList
                  @ [\<lparr>tid_' = txn_id_' txn, mode_' = mode1, granted_' = granted\<rparr>]\<rparr>
      in if \<not> granted
         then (True, l1\<lparr>hasUpgrading_' := (hasUpgrading_' l1 \<or> upgradingMode)\<rparr>, txn)
         else (False, l1, insert_after_wait txn rid mode1))"

text \<open>
  Step 3 of \<^verbatim>\<open>lockTemplate\<close>: \<^verbatim>\<open>checkCanGrant\<close>, the wait-die test against
  the queue's last entry, and the insertion. When \<open>canGrant\<close> is false the queue is
  not empty, so \<^verbatim>\<open>locks.back()\<close> exists.
\<close>

definition lockTemplate_step3 ::
  "LockManager \<Rightarrow> TxList \<Rightarrow> Transaction \<Rightarrow> RID \<Rightarrow> LockMode
     \<Rightarrow> bool outcome \<times> LockManager \<times> Transaction" where
  "lockTemplate_step3 lm txList txn rid mode =
     (let canGrant = checkCanGrant txList mode in
      if \<not> canGrant \<and> tid_' (last (locks_' txList)) < txn_id_' txn
      then (Returns False, set_TxList lm rid txList, txn\<lparr>state_' := ABORTED\<rparr>)
      else (case TxList_insert txList txn rid mode canGrant of
              (waits, txList1, txn1) \<Rightarrow>
                (if waits then Blocks else Returns True, set_TxList lm rid txList1, txn1)))"

definition lockTemplate ::
  "LockManager \<Rightarrow> Transaction \<Rightarrow> RID \<Rightarrow> LockMode \<Rightarrow> bool outcome \<times> LockManager \<times> Transaction" where
  "lockTemplate lm txn rid mode =
     (if state_' txn \<noteq> GROWING then (Returns False, lm, txn\<lparr>state_' := ABORTED\<rparr>)
      else
        (case lockTable_at lm rid of
           (txList, lm1) \<Rightarrow>
             if mode = UPGRADING
             then
               (if hasUpgrading_' txList then (Returns False, lm1, txn\<lparr>state_' := ABORTED\<rparr>)
                else
                  (case find (\<lambda>item. tid_' item = txn_id_' txn) (locks_' txList) of
                     None \<Rightarrow> (Returns False, lm1, txn\<lparr>state_' := ABORTED\<rparr>)
                   | Some it \<Rightarrow>
                       if mode_' it \<noteq> SHARED \<or> \<not> granted_' it
                       then (Returns False, lm1, txn\<lparr>state_' := ABORTED\<rparr>)
                       else
                         (let txList2 = txList\<lparr>locks_' := remove1 it (locks_' txList)\<rparr> in
                          case uset_erase rid (shared_lock_set_' txn) of
                            (n, s) \<Rightarrow>
                              if n \<noteq> 1
                              then (AssertionFails, set_TxList lm1 rid txList2,
                                    txn\<lparr>shared_lock_set_' := s\<rparr>)
                              else lockTemplate_step3 lm1 txList2
                                     (txn\<lparr>shared_lock_set_' := s\<rparr>) rid mode)))
             else lockTemplate_step3 lm1 txList txn rid mode))"

definition LockShared :: "LockManager \<Rightarrow> Transaction \<Rightarrow> RID \<Rightarrow> bool outcome \<times> LockManager \<times> Transaction" where
  "LockShared lm txn rid = lockTemplate lm txn rid SHARED"

definition LockExclusive :: "LockManager \<Rightarrow> Transaction \<Rightarrow> RID \<Rightarrow> bool outcome \<times> LockManager \<times> Transaction" where
  "LockExclusive lm txn rid = lockTemplate lm txn rid EXCLUSIVE"

definition LockUpgrade :: "LockManager \<Rightarrow> Transaction \<Rightarrow> RID \<Rightarrow> bool outcome \<times> LockManager \<times> Transaction" where
  "LockUpgrade lm txn rid = lockTemplate lm txn rid UPGRADING"

text \<open>
  Step 3 of \<^verbatim>\<open>Unlock\<close>: the loop over the remaining queue, from its head. It
  returns the queue and \<^verbatim>\<open>hasUpgrading_\<close>.
\<close>

fun grant_waiters :: "TxItem list \<Rightarrow> bool \<Rightarrow> TxItem list \<times> bool" where
  "grant_waiters [] hasUpgrading = ([], hasUpgrading)"
| "grant_waiters (tx # rest) hasUpgrading =
     (if granted_' tx then (tx # rest, hasUpgrading)
      else if mode_' tx = SHARED
           then (case grant_waiters rest hasUpgrading of
                   (rest1, h1) \<Rightarrow> (tx\<lparr>granted_' := True\<rparr> # rest1, h1))
           else if mode_' tx = UPGRADING
                then (tx\<lparr>granted_' := True, mode_' := EXCLUSIVE\<rparr> # rest, False)
                else (tx\<lparr>granted_' := True\<rparr> # rest, hasUpgrading))"

definition Unlock ::
  "LockManager \<Rightarrow> Transaction \<Rightarrow> RID \<Rightarrow> bool outcome \<times> LockManager \<times> Transaction" where
  "Unlock lm txn rid =
     (if strict_2PL_' lm \<and> state_' txn \<noteq> COMMITTED \<and> state_' txn \<noteq> ABORTED
      then (Returns False, lm, txn\<lparr>state_' := ABORTED\<rparr>)
      else
        (let txn1 = (if \<not> strict_2PL_' lm \<and> state_' txn = GROWING
                     then txn\<lparr>state_' := SHRINKING\<rparr> else txn)
         in case lockTable_at lm rid of
              (txList, lm1) \<Rightarrow>
                (case find (\<lambda>item. tid_' item = txn_id_' txn1) (locks_' txList) of
                   None \<Rightarrow> (AssertionFails, lm1, txn1)
                 | Some it \<Rightarrow>
                     (case (if mode_' it = SHARED
                            then (case uset_erase rid (shared_lock_set_' txn1) of
                                    (n, s) \<Rightarrow> (n, txn1\<lparr>shared_lock_set_' := s\<rparr>))
                            else (case uset_erase rid (exclusive_lock_set_' txn1) of
                                    (n, s) \<Rightarrow> (n, txn1\<lparr>exclusive_lock_set_' := s\<rparr>))) of
                        (n, txn2) \<Rightarrow>
                          if n \<noteq> 1 then (AssertionFails, lm1, txn2)
                          else
                            (let locks1 = remove1 it (locks_' txList) in
                             if locks1 = []
                             then (Returns True,
                                   lm1\<lparr>lockTable_' := table_erase (lockTable_' lm1) rid\<rparr>, txn2)
                             else
                               (case grant_waiters locks1 (hasUpgrading_' txList) of
                                  (locks2, h) \<Rightarrow>
                                    (Returns True,
                                     set_TxList lm1 rid \<lparr>locks_' = locks2, hasUpgrading_' = h\<rparr>,
                                     txn2)))))))"

text \<open>
  "A younger transaction waits on an older one" in a queue: some request is not
  granted (its thread is blocked in \<^verbatim>\<open>Wait\<close>) while a request of a transaction
  with a smaller id stands before it in the same queue.
\<close>

fun younger_waits_on_older :: "TxItem list \<Rightarrow> bool" where
  "younger_waits_on_older [] = False"
| "younger_waits_on_older (tx # rest) =
     ((\<exists>w \<in> set rest. \<not> granted_' w \<and> tid_' tx < tid_' w) \<or> younger_waits_on_older rest)"

definition new_LockManager :: "bool \<Rightarrow> LockManager" where
  "new_LockManager strict_2PL = \<lparr>strict_2PL_' = strict_2PL, lockTable_' = Map.empty\<rparr>"

section \<open>Transaction manager\<close>

text \<open>
  \<^verbatim>\<open>TransactionManager::Commit\<close>. The collaborators it calls are not part of the
  sources. The log manager is modelled from the spec: \<^verbatim>\<open>AppendLogRecord\<close>
  assigns the next LSN and appends the record, \<^verbatim>\<open>Flush\<close> waits for the log to be
  durable. The table heap's \<^verbatim>\<open>ApplyDelete(rid, txn)\<close> is a parameter: the heap
  holds the lock manager and the log manager of the transaction manager and gets the
  transaction, so the call may change the heap (the state \<open>'h\<close>), the lock
  manager, the log and the transaction, may make calls of its own and may fail an
  assertion; the comment at the call says that it releases the lock. Every call that
  \<^verbatim>\<open>Commit\<close> makes is recorded, in order, in \<open>calls\<close>, and the parameter adds
  the calls it makes. \<^verbatim>\<open>ENABLE_LOGGING\<close> is the global switch. Each write record
  names its table (\<^verbatim>\<open>table_\<close>), here a number.
\<close>

datatype LogRecordType =
  LogRecordType_INVALID | LogRecordType_INSERT | LogRecordType_MARKDELETE
  | LogRecordType_APPLYDELETE | LogRecordType_ROLLBACKDELETE | LogRecordType_UPDATE
  | LogRecordType_BEGIN | LogRecordType_COMMIT | LogRecordType_ABORT | LogRecordType_NEWPAGE

datatype Call =
  Call_ApplyDelete nat RID
  | Call_AppendLogRecord txn_id_t lsn_t LogRecordType
  | Call_Flush bool
  | Call_Unlock RID

record 'h TransactionManager =
  lock_manager_' :: LockManager
  ENABLE_LOGGING :: bool
  next_lsn_' :: lsn_t
  heap :: 'h
  calls :: "Call list"

type_synonym 'h ApplyDelete =
  "nat \<Rightarrow> RID \<Rightarrow> Transaction \<Rightarrow> 'h TransactionManager
     \<Rightarrow> unit outcome \<times> 'h TransactionManager \<times> Transaction"

text \<open>
  The loop that drains the write set takes the records from the back; \<open>items\<close> is
  the write set reversed. \<^verbatim>\<open>ApplyDelete\<close> is called for a DELETE record while the
  record is still in the write set, and \<^verbatim>\<open>pop_back\<close> follows. The deque is the
  loop's: \<^verbatim>\<open>ApplyDelete\<close> is taken not to push or pop write records. A failed
  assertion inside \<^verbatim>\<open>ApplyDelete\<close> ends the process.
\<close>

fun Commit_write_set ::
  "'h ApplyDelete \<Rightarrow> WriteRecord list \<Rightarrow> 'h TransactionManager \<Rightarrow> Transaction
     \<Rightarrow> unit outcome \<times> 'h TransactionManager \<times> Transaction" where
  "Commit_write_set TableHeap_ApplyDelete [] tm txn = (Returns (), tm, txn)"
| "Commit_write_set TableHeap_ApplyDelete (item # items) tm txn =
     (if wtype_' item = WType_DELETE
      then
        (case TableHeap_ApplyDelete (table_' item) (rid_' item) txn
                (tm\<lparr>calls := calls tm @ [Call_ApplyDelete (table_' item) (rid_' item)]\<rparr>) of
           (oc, tm1, txn1) \<Rightarrow>
             if oc = Returns ()
             then Commit_write_set TableHeap_ApplyDelete items tm1
                    (txn1\<lparr>write_set_' := butlast (write_set_' txn1)\<rparr>)
             else (oc, tm1, txn1))
      else Commit_write_set TableHeap_ApplyDelete items tm
             (txn\<lparr>write_set_' := butlast (write_set_' txn)\<rparr>))"

text \<open>
  The loop that releases the locks: \<^verbatim>\<open>Unlock\<close> for every RID of \<open>lock_set\<close>; its
  result is ignored. A failed assertion inside \<^verbatim>\<open>Unlock\<close> ends the process.
\<close>

fun Commit_release ::
  "RID list \<Rightarrow> 'h TransactionManager \<Rightarrow> Transaction
     \<Rightarrow> unit outcome \<times> 'h TransactionManager \<times> Transaction" where
  "Commit_release [] tm txn = (Returns (), tm, txn)"
| "Commit_release (locked_rid # rids) tm txn =
     (case Unlock (lock_manager_' tm) txn locked_rid of
        (oc, lm1, txn1) \<Rightarrow>
          (let tm1 = tm\<lparr>lock_manager_' := lm1, calls := calls tm @ [Call_Unlock locked_rid]\<rparr>
           in if oc = AssertionFails then (AssertionFails, tm1, txn1)
              else Commit_release rids tm1 txn1))"

text \<open>
  \<^verbatim>\<open>lock_set\<close> is an \<^verbatim>\<open>unordered_set\<close> filled from the shared and then the
  exclusive lock set. C++ does not fix the order in which it is iterated: the order
  is the parameter \<open>unordered_set_order\<close>, which gives the iteration order of the
  set that was filled in the order of its argument.
\<close>

definition Commit_lock_set :: "(RID list \<Rightarrow> RID list) \<Rightarrow> Transaction \<Rightarrow> RID list" where
  "Commit_lock_set unordered_set_order txn =
     unordered_set_order (fold uset_insert (shared_lock_set_' txn @ exclusive_lock_set_' txn) [])"

definition Commit ::
  "'h ApplyDelete \<Rightarrow> (RID list \<Rightarrow> RID list) \<Rightarrow> 'h TransactionManager \<Rightarrow> Transaction
     \<Rightarrow> unit outcome \<times> 'h TransactionManager \<times> Transaction" where
  "Commit TableHeap_ApplyDelete unordered_set_order tm txn =
     (let txn1 = txn\<lparr>state_' := COMMITTED\<rparr> in
      case Commit_write_set TableHeap_ApplyDelete (rev (write_set_' txn1)) tm txn1 of
        (oc, tm1, txn2) \<Rightarrow>
          if oc \<noteq> Returns () then (oc, tm1, txn2)
          else
            (let txn3 = txn2\<lparr>write_set_' := []\<rparr>;
                 (tm2, txn4) =
                   (if ENABLE_LOGGING tm1
                    then (tm1\<lparr>next_lsn_' := next_lsn_' tm1 + 1,
                              calls := calls tm1
                                @ [Call_AppendLogRecord (txn_id_' txn3) (prev_lsn_' txn3)
                                     LogRecordType_COMMIT,
                                   Call_Flush False]\<rparr>,
                          txn3\<lparr>prev_lsn_' := next_lsn_' tm1\<rparr>)
                    else (tm1, txn3))
             in Commit_release (Commit_lock_set unordered_set_order txn4) tm2 txn4))"





section \<open>Log recovery\<close>

text \<open>
  Modelled from the spec: the classes \<^verbatim>\<open>LogRecord\<close>, \<^verbatim>\<open>Tuple\<close> and
  \<^verbatim>\<open>TablePage\<close> are not part of the sources. A log record has the header (size,
  lsn, txn id, prev lsn, type) and the body of its type; the members that the
  transaction or the tree pages also have carry the prefix \<open>log_\<close> here. A table
  page carries its page id, the LSN of the last log record whose effect it reflects,
  the ids of the previous and the next page, and its tuples (\<open>'d\<close>). The operations
  on the tuples of a page (\<^verbatim>\<open>InsertTuple\<close>, \<^verbatim>\<open>UpdateTuple\<close>, \<^verbatim>\<open>MarkDelete\<close>,
  \<^verbatim>\<open>ApplyDelete\<close>, \<^verbatim>\<open>RollbackDelete\<close>, \<^verbatim>\<open>Init\<close>) are parameters
  (\<open>TablePage_ops\<close>), called with the arguments the recovery passes.
\<close>

type_synonym Tuple = string

record LogRecord =
  size_' :: int
  lsn_' :: lsn_t
  log_txn_id_' :: txn_id_t
  log_prev_lsn_' :: lsn_t
  log_record_type_' :: LogRecordType
  delete_rid_' :: RID
  delete_tuple_' :: Tuple
  insert_rid_' :: RID
  insert_tuple_' :: Tuple
  update_rid_' :: RID
  old_tuple_' :: Tuple
  new_tuple_' :: Tuple
  prev_page_id_' :: page_id_t
  log_page_id_' :: page_id_t

record 'd TablePage =
  table_page_id :: page_id_t
  page_lsn :: lsn_t
  table_prev_page_id :: page_id_t
  table_next_page_id :: page_id_t
  tuples :: 'd

record 'd TablePage_ops =
  TablePage_InsertTuple :: "Tuple \<Rightarrow> RID \<Rightarrow> 'd TablePage \<Rightarrow> 'd TablePage"
  TablePage_UpdateTuple :: "Tuple \<Rightarrow> RID \<Rightarrow> 'd TablePage \<Rightarrow> 'd TablePage"
  TablePage_MarkDelete :: "RID \<Rightarrow> 'd TablePage \<Rightarrow> 'd TablePage"
  TablePage_ApplyDelete :: "RID \<Rightarrow> 'd TablePage \<Rightarrow> 'd TablePage"
  TablePage_RollbackDelete :: "RID \<Rightarrow> 'd TablePage \<Rightarrow> 'd TablePage"
  TablePage_Init :: "page_id_t \<Rightarrow> page_id_t \<Rightarrow> 'd TablePage \<Rightarrow> 'd TablePage"

record 'd LogRecovery =
  recovery_buffer_pool_manager_' :: "('d TablePage) BufferPoolManager"
  active_txn_' :: "txn_id_t \<rightharpoonup> lsn_t"
  lsn_mapping_' :: "lsn_t \<rightharpoonup> int"

definition GetRID :: "LogRecord \<Rightarrow> RID" where
  "GetRID log =
     (if log_record_type_' log = LogRecordType_INSERT then insert_rid_' log
      else if log_record_type_' log = LogRecordType_UPDATE then update_rid_' log
      else delete_rid_' log)"

text \<open>
  The replay of one record on its page, inside \<^verbatim>\<open>if (needRedo)\<close>: the operation
  of the record's type, or a failed \<^verbatim>\<open>assert(false)\<close> for any other type, and
  then \<^verbatim>\<open>SetLSN\<close>.
\<close>

definition replay :: "'d TablePage_ops \<Rightarrow> LogRecord \<Rightarrow> 'd TablePage \<Rightarrow> 'd TablePage option" where
  "replay ops log page =
     (let rid = GetRID log in
      if log_record_type_' log = LogRecordType_INSERT
      then Some ((TablePage_InsertTuple ops (insert_tuple_' log) rid page)\<lparr>page_lsn := lsn_' log\<rparr>)
      else if log_record_type_' log = LogRecordType_UPDATE
      then Some ((TablePage_UpdateTuple ops (new_tuple_' log) rid page)\<lparr>page_lsn := lsn_' log\<rparr>)
      else if log_record_type_' log = LogRecordType_MARKDELETE
      then Some ((TablePage_MarkDelete ops rid page)\<lparr>page_lsn := lsn_' log\<rparr>)
      else if log_record_type_' log = LogRecordType_APPLYDELETE
      then Some ((TablePage_ApplyDelete ops rid page)\<lparr>page_lsn := lsn_' log\<rparr>)
      else if log_record_type_' log = LogRecordType_ROLLBACKDELETE
      then Some ((TablePage_RollbackDelete ops rid page)\<lparr>page_lsn := lsn_' log\<rparr>)
      else None)"

text \<open>
  The body of the inner loop of \<^verbatim>\<open>Redo\<close> for one deserialised record; \<open>pos\<close>
  is the offset \<^verbatim>\<open>temp + bufferOffset\<close> that the loop has computed for it.
\<close>

definition Redo_record ::
  "'d TablePage_ops \<Rightarrow> int \<Rightarrow> LogRecord \<Rightarrow> 'd LogRecovery \<Rightarrow> unit outcome \<times> 'd LogRecovery" where
  "Redo_record ops pos log lr =
     (let lr1 = lr\<lparr>lsn_mapping_' := table_put (lsn_mapping_' lr) (lsn_' log) pos,
                    active_txn_' := table_put (active_txn_' lr) (log_txn_id_' log) (lsn_' log)\<rparr>;
          bpm = recovery_buffer_pool_manager_' lr1
      in if log_record_type_' log = LogRecordType_BEGIN then (Returns (), lr1)
         else if log_record_type_' log = LogRecordType_COMMIT
                 \<or> log_record_type_' log = LogRecordType_ABORT
         then (Returns (),
               lr1\<lparr>active_txn_' := table_erase (active_txn_' lr1) (log_txn_id_' log)\<rparr>)
         else if log_record_type_' log = LogRecordType_NEWPAGE
         then
           (case FetchPage bpm (log_page_id_' log) of
              (None, bpm1) \<Rightarrow> (AssertionFails, lr1\<lparr>recovery_buffer_pool_manager_' := bpm1\<rparr>)
            | (Some page, bpm1) \<Rightarrow>
                if lsn_' log > page_lsn page
                then
                  (let bpm2 = write_page bpm1 (log_page_id_' log)
                                ((TablePage_Init ops (log_page_id_' log) (prev_page_id_' log) page)
                                   \<lparr>page_lsn := lsn_' log\<rparr>)
                   in if prev_page_id_' log \<noteq> INVALID_PAGE_ID
                      then
                        (case FetchPage bpm2 (prev_page_id_' log) of
                           (None, bpm3) \<Rightarrow> (AssertionFails, lr1\<lparr>recovery_buffer_pool_manager_' := bpm3\<rparr>)
                         | (Some prevPage, bpm3) \<Rightarrow>
                             (let needChange = (table_next_page_id prevPage = log_page_id_' log);
                                  bpm4 = write_page bpm3 (prev_page_id_' log)
                                           (prevPage\<lparr>table_next_page_id := log_page_id_' log\<rparr>);
                                  bpm5 = UnpinPage bpm4 (table_page_id prevPage) needChange
                              in (Returns (),
                                  lr1\<lparr>recovery_buffer_pool_manager_' :=
                                        UnpinPage bpm5 (log_page_id_' log) True\<rparr>)))
                      else (Returns (),
                            lr1\<lparr>recovery_buffer_pool_manager_' := UnpinPage bpm2 (log_page_id_' log) True\<rparr>))
                else (Returns (),
                      lr1\<lparr>recovery_buffer_pool_manager_' := UnpinPage bpm1 (table_page_id page) False\<rparr>))
         else
           (case FetchPage bpm (fst (GetRID log)) of
              (None, bpm1) \<Rightarrow> (AssertionFails, lr1\<lparr>recovery_buffer_pool_manager_' := bpm1\<rparr>)
            | (Some page, bpm1) \<Rightarrow>
                if lsn_' log > page_lsn page
                then
                  (case replay ops log page of
                     None \<Rightarrow> (AssertionFails, lr1\<lparr>recovery_buffer_pool_manager_' := bpm1\<rparr>)
                   | Some page1 \<Rightarrow>
                       (Returns (),
                        lr1\<lparr>recovery_buffer_pool_manager_' :=
                              UnpinPage (write_page bpm1 (fst (GetRID log)) page1)
                                (table_page_id page1) True\<rparr>))
                else (Returns (),
                      lr1\<lparr>recovery_buffer_pool_manager_' := UnpinPage bpm1 (table_page_id page) False\<rparr>)))"

text \<open>
  The REDO pass over the records of the log, in the order the buffer loop
  deserialises them, each with its offset.
\<close>

fun Redo_records ::
  "'d TablePage_ops \<Rightarrow> (int \<times> LogRecord) list \<Rightarrow> 'd LogRecovery \<Rightarrow> unit outcome \<times> 'd LogRecovery" where
  "Redo_records ops [] lr = (Returns (), lr)"
| "Redo_records ops ((pos, log) # rest) lr =
     (case Redo_record ops pos log lr of
        (oc, lr1) \<Rightarrow> if oc = Returns () then Redo_records ops rest lr1 else (oc, lr1))"

text \<open>
  An example for the REDO pass: the tuples of a page are a list of (RID, tuple, marked
  deleted); page 3 reflects the log up to LSN 4.
\<close>

definition example_ops :: "((RID \<times> Tuple \<times> bool) list) TablePage_ops" where
  "example_ops =
     \<lparr>TablePage_InsertTuple = (\<lambda>t rid p. p\<lparr>tuples := tuples p @ [(rid, t, False)]\<rparr>),
      TablePage_UpdateTuple =
        (\<lambda>t rid p. p\<lparr>tuples := map (\<lambda>(r, u, d). if r = rid then (r, t, d) else (r, u, d)) (tuples p)\<rparr>),
      TablePage_MarkDelete =
        (\<lambda>rid p. p\<lparr>tuples := map (\<lambda>(r, u, d). if r = rid then (r, u, True) else (r, u, d)) (tuples p)\<rparr>),
      TablePage_ApplyDelete = (\<lambda>rid p. p\<lparr>tuples := filter (\<lambda>(r, u, d). r \<noteq> rid) (tuples p)\<rparr>),
      TablePage_RollbackDelete =
        (\<lambda>rid p. p\<lparr>tuples := map (\<lambda>(r, u, d). if r = rid then (r, u, False) else (r, u, d)) (tuples p)\<rparr>),
      TablePage_Init =
        (\<lambda>page_id prev_page_id p.
           \<lparr>table_page_id = page_id, page_lsn = page_lsn p, table_prev_page_id = prev_page_id,
            table_next_page_id = INVALID_PAGE_ID, tuples = []\<rparr>)\<rparr>"

definition example_table_page :: "((RID \<times> Tuple \<times> bool) list) TablePage" where
  "example_table_page =
     \<lparr>table_page_id = 3, page_lsn = 4, table_prev_page_id = - 1, table_next_page_id = - 1,
      tuples = [((3, 0), ''A'', False)]\<rparr>"

definition example_recovery :: "((RID \<times> Tuple \<times> bool) list) LogRecovery" where
  "example_recovery =
     \<lparr>recovery_buffer_pool_manager_' =
        \<lparr>pages = [3 \<mapsto> example_table_page], pin_count = (\<lambda>p. 0), is_dirty = (\<lambda>p. False),
         next_new_page_id = 4\<rparr>,
      active_txn_' = Map.empty, lsn_mapping_' = Map.empty\<rparr>"

definition example_update_log :: "lsn_t \<Rightarrow> LogRecord" where
  "example_update_log lsn =
     \<lparr>size_' = 40, lsn_' = lsn, log_txn_id_' = 2, log_prev_lsn_' = 3,
      log_record_type_' = LogRecordType_UPDATE, delete_rid_' = (0, 0), delete_tuple_' = [],
      insert_rid_' = (0, 0), insert_tuple_' = [], update_rid_' = (3, 0), old_tuple_' = ''A'',
      new_tuple_' = ''B'', prev_page_id_' = 0, log_page_id_' = 0\<rparr>"

section \<open>Operations of the B+ tree pages\<close>

text \<open>
  What ends an operation of the index other than its return: a failed
  \<^verbatim>\<open>assert\<close>, the use of a null pointer, a page read as a page of another
  type, a read outside the valid slots of a page, and the end of the fuel that bounds
  the loops and recursions over the tree (see \<open>FindLeafPage\<close>).
\<close>

datatype failure = AssertionFailed | NullPointer | WrongPageType | OutOfBounds | OutOfFuel

datatype 'a result = Ok 'a | Failure failure

datatype OpType = OpType_READ | OpType_INSERT | OpType_DELETE

text \<open>
  Modelled from the spec: the base class \<^verbatim>\<open>BPlusTreePage\<close>
  (\<^verbatim>\<open>b_plus_tree_page.cpp\<close>) is not part of the sources. A page is the root when
  it has no parent. \<^verbatim>\<open>min_size = ceil(max_size/2)\<close> for leaves and
  \<^verbatim>\<open>ceil((max_size+1)/2)\<close> for internal pages. A page is safe for READ, for
  INSERT when its size is below \<^verbatim>\<open>max_size\<close>, and for DELETE when its size is
  above \<^verbatim>\<open>min_size\<close>.
\<close>

definition IsRootPage :: "('k, 'v) BPlusTreePage \<Rightarrow> bool" where
  "IsRootPage p = (parent_page_id_' p = INVALID_PAGE_ID)"

definition GetMinSize :: "bool \<Rightarrow> ('k, 'v) BPlusTreePage \<Rightarrow> int" where
  "GetMinSize is_leaf p = (if is_leaf then (max_size_' p + 1) div 2 else (max_size_' p + 2) div 2)"

definition IsSafe :: "bool \<Rightarrow> ('k, 'v) BPlusTreePage \<Rightarrow> OpType \<Rightarrow> bool" where
  "IsSafe is_leaf p op =
     (case op of
        OpType_READ \<Rightarrow> True
      | OpType_INSERT \<Rightarrow> GetSize p < max_size_' p
      | OpType_DELETE \<Rightarrow> GetSize p > GetMinSize is_leaf p)"

subsection \<open>Leaf page\<close>

text \<open>
  \<^verbatim>\<open>Init\<close> computes the maximal size from the page size and the slot size;
  the result is the argument \<open>max_size\<close> here.
\<close>

definition Leaf_Init :: "int \<Rightarrow> page_id_t \<Rightarrow> page_id_t \<Rightarrow> ('k, 'v) BPlusTreeLeafPage" where
  "Leaf_Init max_size page_id parent_id =
     \<lparr>page_id_' = page_id, parent_page_id_' = parent_id, next_page_id_' = INVALID_PAGE_ID,
      max_size_' = max_size, array = []\<rparr>"

definition KeyAt :: "('k, 'v) BPlusTreePage \<Rightarrow> int \<Rightarrow> 'k result" where
  "KeyAt p index =
     (if index \<ge> 0 \<and> index < GetSize p then Ok (fst (array p ! nat index))
      else Failure AssertionFailed)"

definition GetItem :: "('k, 'v) BPlusTreeLeafPage \<Rightarrow> int \<Rightarrow> ('k \<times> 'v) result" where
  "GetItem p index =
     (if index \<ge> 0 \<and> index < GetSize p then Ok (array p ! nat index)
      else Failure AssertionFailed)"

text \<open>
  \<^verbatim>\<open>Insert\<close>: the slots from \<open>idx\<close> on move up by one and the pair is
  written at \<open>idx\<close>. The page has room for \<open>max_size + 1\<close> slots.
\<close>

definition Leaf_Insert ::
  "('k, 'v) BPlusTreeLeafPage \<Rightarrow> 'k \<Rightarrow> 'v \<Rightarrow> ('k \<Rightarrow> 'k \<Rightarrow> int) \<Rightarrow> ('k, 'v) BPlusTreeLeafPage result" where
  "Leaf_Insert p key value comparator =
     (case KeyIndex p key comparator of
        None \<Rightarrow> Failure OutOfBounds
      | Some idx \<Rightarrow>
          if idx < 0 then Failure AssertionFailed
          else Ok (p\<lparr>array := take (nat idx) (array p) @ [(key, value)] @ drop (nat idx) (array p)\<rparr>))"

text \<open>
  \<^verbatim>\<open>Lookup\<close>: \<open>Ok (Some value)\<close> for \<open>true\<close> with the value stored,
  \<open>Ok None\<close> for \<open>false\<close>.
\<close>

definition Leaf_Lookup ::
  "('k, 'v) BPlusTreeLeafPage \<Rightarrow> 'k \<Rightarrow> ('k \<Rightarrow> 'k \<Rightarrow> int) \<Rightarrow> 'v option result" where
  "Leaf_Lookup p key comparator =
     (case KeyIndex p key comparator of
        None \<Rightarrow> Failure OutOfBounds
      | Some idx \<Rightarrow>
          if idx < GetSize p \<and> comparator (fst (array p ! nat idx)) key = 0
          then Ok (Some (snd (array p ! nat idx)))
          else Ok None)"

text \<open>\<^verbatim>\<open>RemoveAndDeleteRecord\<close>: the page after the call; its size is the result.\<close>

definition RemoveAndDeleteRecord ::
  "('k, 'v) BPlusTreeLeafPage \<Rightarrow> 'k \<Rightarrow> ('k \<Rightarrow> 'k \<Rightarrow> int) \<Rightarrow> ('k, 'v) BPlusTreeLeafPage result" where
  "RemoveAndDeleteRecord p key comparator =
     (case KeyIndex p key comparator of
        None \<Rightarrow> Failure OutOfBounds
      | Some firIdxLargerEqualThanKey \<Rightarrow>
          if firIdxLargerEqualThanKey \<ge> GetSize p then Ok p
          else (case KeyAt p firIdxLargerEqualThanKey of
                  Failure f \<Rightarrow> Failure f
                | Ok k \<Rightarrow>
                    if comparator key k \<noteq> 0 then Ok p
                    else Ok (p\<lparr>array := take (nat firIdxLargerEqualThanKey) (array p)
                                         @ drop (nat firIdxLargerEqualThanKey + 1) (array p)\<rparr>)))"

text \<open>
  \<^verbatim>\<open>MoveHalfTo\<close>, \<^verbatim>\<open>MoveAllTo\<close>: the page and the recipient after the call.
\<close>

definition Leaf_MoveHalfTo ::
  "('k, 'v) BPlusTreeLeafPage \<Rightarrow> ('k, 'v) BPlusTreeLeafPage
     \<Rightarrow> (('k, 'v) BPlusTreeLeafPage \<times> ('k, 'v) BPlusTreeLeafPage) result" where
  "Leaf_MoveHalfTo p recipient =
     (let total = max_size_' p + 1 in
      if GetSize p \<noteq> total then Failure AssertionFailed
      else
        (let copyIdx = total div 2 in
         Ok (p\<lparr>next_page_id_' := page_id_' recipient, array := take (nat copyIdx) (array p)\<rparr>,
             recipient\<lparr>next_page_id_' := next_page_id_' p,
                       array := drop (nat copyIdx) (array p)\<rparr>)))"

definition Leaf_MoveAllTo ::
  "('k, 'v) BPlusTreeLeafPage \<Rightarrow> ('k, 'v) BPlusTreeLeafPage
     \<Rightarrow> ('k, 'v) BPlusTreeLeafPage \<times> ('k, 'v) BPlusTreeLeafPage" where
  "Leaf_MoveAllTo p recipient =
     (p\<lparr>array := []\<rparr>,
      recipient\<lparr>next_page_id_' := next_page_id_' p, array := array recipient @ array p\<rparr>)"

definition CopyLastFrom ::
  "('k, 'v) BPlusTreeLeafPage \<Rightarrow> ('k \<times> 'v) \<Rightarrow> ('k, 'v) BPlusTreeLeafPage result" where
  "CopyLastFrom p item =
     (if GetSize p + 1 \<le> max_size_' p then Ok (p\<lparr>array := array p @ [item]\<rparr>)
      else Failure AssertionFailed)"

subsection \<open>Internal page\<close>

text \<open>
  Modelled from the spec: the internal page (\<^verbatim>\<open>b_plus_tree_internal_page.cpp\<close>)
  is not part of the sources. Slot 0 holds the leftmost child and no key.
  \<^verbatim>\<open>Lookup(key)\<close> returns the child of the slot \<open>i\<close> with
  \<open>keys[i] \<le> key < keys[i+1]\<close>, where \<open>keys[0]\<close> counts as minus infinity and
  the end of the array as plus infinity: the slot before the first key above
  \<open>key\<close>. \<^verbatim>\<open>ValueIndex\<close> is the slot of a child, or the size when the page
  has no such child. \<^verbatim>\<open>PopulateNewRoot\<close> fills a new root with the old page in
  slot 0 and the separator with the new page in slot 1; the unused key of slot 0 is the
  separator here. \<^verbatim>\<open>InsertNodeAfter\<close> inserts the separator and the new page
  right after the slot of the old page. \<^verbatim>\<open>Remove(index)\<close> deletes a slot.
\<close>

definition Internal_Init :: "int \<Rightarrow> page_id_t \<Rightarrow> page_id_t \<Rightarrow> 'k BPlusTreeInternalPage" where
  "Internal_Init max_size page_id parent_id =
     \<lparr>page_id_' = page_id, parent_page_id_' = parent_id, next_page_id_' = INVALID_PAGE_ID,
      max_size_' = max_size, array = []\<rparr>"

definition ValueAt :: "'k BPlusTreeInternalPage \<Rightarrow> int \<Rightarrow> page_id_t result" where
  "ValueAt p index =
     (if index \<ge> 0 \<and> index < GetSize p then Ok (snd (array p ! nat index))
      else Failure OutOfBounds)"

definition SetKeyAt :: "'k BPlusTreeInternalPage \<Rightarrow> int \<Rightarrow> 'k \<Rightarrow> 'k BPlusTreeInternalPage result" where
  "SetKeyAt p index key =
     (if index \<ge> 0 \<and> index < GetSize p
      then Ok (p\<lparr>array := (array p)[nat index := (key, snd (array p ! nat index))]\<rparr>)
      else Failure OutOfBounds)"

definition ValueIndex :: "'k BPlusTreeInternalPage \<Rightarrow> page_id_t \<Rightarrow> int" where
  "ValueIndex p value = int (length (takeWhile (\<lambda>slot. snd slot \<noteq> value) (array p)))"

definition Internal_Lookup ::
  "'k BPlusTreeInternalPage \<Rightarrow> 'k \<Rightarrow> ('k \<Rightarrow> 'k \<Rightarrow> int) \<Rightarrow> page_id_t result" where
  "Internal_Lookup p key comparator =
     (if array p = [] then Failure OutOfBounds
      else Ok (snd (array p !
                 length (takeWhile (\<lambda>slot. comparator (fst slot) key \<le> 0) (tl (array p))))))"

definition PopulateNewRoot ::
  "'k BPlusTreeInternalPage \<Rightarrow> page_id_t \<Rightarrow> 'k \<Rightarrow> page_id_t \<Rightarrow> 'k BPlusTreeInternalPage" where
  "PopulateNewRoot p old_value new_key new_value =
     p\<lparr>array := [(new_key, old_value), (new_key, new_value)]\<rparr>"

definition InsertNodeAfter ::
  "'k BPlusTreeInternalPage \<Rightarrow> page_id_t \<Rightarrow> 'k \<Rightarrow> page_id_t \<Rightarrow> 'k BPlusTreeInternalPage" where
  "InsertNodeAfter p old_value new_key new_value =
     (let idx = nat (ValueIndex p old_value + 1) in
      p\<lparr>array := take idx (array p) @ [(new_key, new_value)] @ drop idx (array p)\<rparr>)"

definition Internal_Remove :: "'k BPlusTreeInternalPage \<Rightarrow> int \<Rightarrow> 'k BPlusTreeInternalPage result" where
  "Internal_Remove p index =
     (if index \<ge> 0 \<and> index < GetSize p
      then Ok (p\<lparr>array := take (nat index) (array p) @ drop (nat index + 1) (array p)\<rparr>)
      else Failure OutOfBounds)"

definition RemoveAndReturnOnlyChild ::
  "'k BPlusTreeInternalPage \<Rightarrow> (page_id_t \<times> 'k BPlusTreeInternalPage) result" where
  "RemoveAndReturnOnlyChild p =
     (case ValueAt p 0 of
        Failure f \<Rightarrow> Failure f
      | Ok child \<Rightarrow> Ok (child, p\<lparr>array := []\<rparr>))"

section \<open>The B+ tree\<close>

text \<open>
  The pages of the tree live in the buffer pool. A pointer to a page is the page's id
  here, and every access through a pointer reads or writes the page of that id in the
  pool, so two pointers to one page see each other's writes. A frame holds a leaf page,
  an internal page, the header page (the records index name to root page id) or
  nothing yet (\<^verbatim>\<open>INVALID_INDEX_PAGE\<close>, the frame of a new page); the constructor
  stands for \<^verbatim>\<open>page_type_\<close>. The model follows one thread: the
  latches (\<^verbatim>\<open>Lock\<close>, \<^verbatim>\<open>Unlock\<close>, \<^verbatim>\<open>LockRootPageId\<close>,
  \<^verbatim>\<open>TryUnlockRootPageId\<close>, declared in a header that is not part of the sources)
  change neither a page nor a pin and are left out. \<open>leaf_max_size\<close> and
  \<open>internal_max_size\<close> are the sizes that the pages' \<^verbatim>\<open>Init\<close> computes. 
  \<open>CoalesceOrRedistribute_calls\<close> is not a member of the source: it records the
  pages that \<^verbatim>\<open>CoalesceOrRedistribute\<close> has been called on, in order, and nothing
  reads it. A \<^verbatim>\<open>Transaction *\<close> argument is an optional transaction; each operation returns
  the transaction and the tree as it leaves them.
\<close>

datatype ('k, 'v) Page =
  LEAF_PAGE "('k, 'v) BPlusTreeLeafPage"
  | INTERNAL_PAGE "'k BPlusTreeInternalPage"
  | HEADER_PAGE "(string \<times> page_id_t) list"
  | INVALID_INDEX_PAGE

definition HEADER_PAGE_ID :: page_id_t where
  "HEADER_PAGE_ID = 0"

record ('k, 'v) BPlusTree =
  index_name_' :: string
  root_page_id_' :: page_id_t
  buffer_pool_manager_' :: "(('k, 'v) Page) BufferPoolManager"
  leaf_max_size :: int
  internal_max_size :: int
  CoalesceOrRedistribute_calls :: "page_id_t list"

definition IsEmpty :: "('k, 'v) BPlusTree \<Rightarrow> bool" where
  "IsEmpty t = (root_page_id_' t = INVALID_PAGE_ID)"

definition page_at :: "('k, 'v) BPlusTree \<Rightarrow> page_id_t \<Rightarrow> ('k, 'v) Page option" where
  "page_at t page_id = pages (buffer_pool_manager_' t) page_id"

definition set_page :: "('k, 'v) BPlusTree \<Rightarrow> page_id_t \<Rightarrow> ('k, 'v) Page \<Rightarrow> ('k, 'v) BPlusTree" where
  "set_page t page_id page =
     t\<lparr>buffer_pool_manager_' := write_page (buffer_pool_manager_' t) page_id page\<rparr>"

definition unpin :: "('k, 'v) BPlusTree \<Rightarrow> page_id_t \<Rightarrow> bool \<Rightarrow> ('k, 'v) BPlusTree" where
  "unpin t page_id dirty =
     t\<lparr>buffer_pool_manager_' := UnpinPage (buffer_pool_manager_' t) page_id dirty\<rparr>"

text \<open>The members of \<^verbatim>\<open>BPlusTreePage\<close> on a frame, whichever page it holds.\<close>

definition Page_IsSafe :: "('k, 'v) Page \<Rightarrow> OpType \<Rightarrow> bool result" where
  "Page_IsSafe page op =
     (case page of
        LEAF_PAGE p \<Rightarrow> Ok (IsSafe True p op)
      | INTERNAL_PAGE p \<Rightarrow> Ok (IsSafe False p op)
      | other \<Rightarrow> Failure WrongPageType)"

definition Page_SetParentPageId :: "('k, 'v) Page \<Rightarrow> page_id_t \<Rightarrow> ('k, 'v) Page result" where
  "Page_SetParentPageId page parent_id =
     (case page of
        LEAF_PAGE p \<Rightarrow> Ok (LEAF_PAGE (p\<lparr>parent_page_id_' := parent_id\<rparr>))
      | INTERNAL_PAGE p \<Rightarrow> Ok (INTERNAL_PAGE (p\<lparr>parent_page_id_' := parent_id\<rparr>))
      | other \<Rightarrow> Failure WrongPageType)"

text \<open>
  \<^verbatim>\<open>BPlusTree::FetchPage\<close>: the frame is fetched (and pinned) and its data is
  returned; without a frame the null pointer is dereferenced.
\<close>

definition Tree_FetchPage ::
  "('k, 'v) BPlusTree \<Rightarrow> page_id_t \<Rightarrow> (('k, 'v) Page \<times> ('k, 'v) BPlusTree) result" where
  "Tree_FetchPage t page_id =
     (case FetchPage (buffer_pool_manager_' t) page_id of
        (None, bpm) \<Rightarrow> Failure NullPointer
      | (Some page, bpm) \<Rightarrow> Ok (page, t\<lparr>buffer_pool_manager_' := bpm\<rparr>))"

text \<open>
  \<^verbatim>\<open>UpdateRootPageId\<close>: the header page is fetched, the record of the index is
  inserted (when it has none) or updated (when it has one), and the page is unpinned.
  Modelled from the spec: \<^verbatim>\<open>HeaderPage::InsertRecord\<close> and
  \<^verbatim>\<open>HeaderPage::UpdateRecord\<close> are not part of the sources.
\<close>

definition InsertRecord :: "(string \<times> page_id_t) list \<Rightarrow> string \<Rightarrow> page_id_t \<Rightarrow> (string \<times> page_id_t) list" where
  "InsertRecord h name root_id = (if name \<in> fst ` set h then h else h @ [(name, root_id)])"

definition UpdateRecord :: "(string \<times> page_id_t) list \<Rightarrow> string \<Rightarrow> page_id_t \<Rightarrow> (string \<times> page_id_t) list" where
  "UpdateRecord h name root_id = map (\<lambda>(n, r). if n = name then (n, root_id) else (n, r)) h"

definition UpdateRootPageId :: "bool \<Rightarrow> ('k, 'v) BPlusTree \<Rightarrow> ('k, 'v) BPlusTree result" where
  "UpdateRootPageId insert_record t =
     (case Tree_FetchPage t HEADER_PAGE_ID of
        Failure f \<Rightarrow> Failure f
      | Ok (HEADER_PAGE h, t1) \<Rightarrow>
          Ok (unpin (set_page t1 HEADER_PAGE_ID
                       (HEADER_PAGE (if insert_record
                                     then InsertRecord h (index_name_' t1) (root_page_id_' t1)
                                     else UpdateRecord h (index_name_' t1) (root_page_id_' t1))))
                HEADER_PAGE_ID True)
      | Ok (other, t1) \<Rightarrow> Failure WrongPageType)"

subsection \<open>Latch crabbing\<close>

text \<open>
  \<^verbatim>\<open>FreePagesInTransaction\<close>. Without a transaction the page \<open>cur\<close> is
  unpinned. With one, every page of the page set is unpinned and, when it is in the
  deleted-page set, deleted from the buffer pool and erased from that set; then the
  deleted-page set must be empty, and the page set is cleared.
\<close>

fun FreePages_loop ::
  "bool \<Rightarrow> page_id_t list \<Rightarrow> page_id_t list \<Rightarrow> ('k, 'v) BPlusTree
     \<Rightarrow> page_id_t list \<times> ('k, 'v) BPlusTree" where
  "FreePages_loop exclusive [] deleted t = (deleted, t)"
| "FreePages_loop exclusive (curPid # rest) deleted t =
     (let t1 = unpin t curPid exclusive in
      if curPid \<in> set deleted
      then FreePages_loop exclusive rest (snd (uset_erase curPid deleted))
             (t1\<lparr>buffer_pool_manager_' := snd (DeletePage (buffer_pool_manager_' t1) curPid)\<rparr>)
      else FreePages_loop exclusive rest deleted t1)"

definition FreePagesInTransaction ::
  "bool \<Rightarrow> Transaction option \<Rightarrow> page_id_t \<Rightarrow> ('k, 'v) BPlusTree
     \<Rightarrow> (Transaction option \<times> ('k, 'v) BPlusTree) result" where
  "FreePagesInTransaction exclusive transaction cur t =
     (case transaction of
        None \<Rightarrow>
          if \<not> exclusive \<and> cur \<ge> 0 then Ok (None, unpin t cur False)
          else Failure AssertionFailed
      | Some txn \<Rightarrow>
          (case FreePages_loop exclusive (page_set_' txn) (deleted_page_set_' txn) t of
             (deleted, t1) \<Rightarrow>
               if deleted = []
               then Ok (Some (txn\<lparr>page_set_' := [], deleted_page_set_' := deleted\<rparr>), t1)
               else Failure AssertionFailed))"

definition AddIntoPageSet :: "Transaction option \<Rightarrow> page_id_t \<Rightarrow> Transaction option" where
  "AddIntoPageSet transaction page_id =
     (case transaction of
        None \<Rightarrow> None
      | Some txn \<Rightarrow> Some (txn\<lparr>page_set_' := page_set_' txn @ [page_id]\<rparr>))"

text \<open>
  \<^verbatim>\<open>CrabingProtocalFetchPage\<close>: the page is fetched; when it has a predecessor
  (\<open>previous > 0\<close>) and the operation reads or the page is safe, the pages held so
  far are freed; the page joins the page set of the transaction, if there is one.
\<close>

definition CrabingProtocalFetchPage ::
  "page_id_t \<Rightarrow> OpType \<Rightarrow> page_id_t \<Rightarrow> Transaction option \<Rightarrow> ('k, 'v) BPlusTree
     \<Rightarrow> (page_id_t \<times> Transaction option \<times> ('k, 'v) BPlusTree) result" where
  "CrabingProtocalFetchPage page_id op previous transaction t =
     (let exclusive = (op \<noteq> OpType_READ) in
      case Tree_FetchPage t page_id of
        Failure f \<Rightarrow> Failure f
      | Ok (treePage, t1) \<Rightarrow>
          (case (if previous > 0
                 then (if \<not> exclusive then Ok True else Page_IsSafe treePage op)
                 else Ok False) of
             Failure f \<Rightarrow> Failure f
           | Ok free \<Rightarrow>
               (case (if free then FreePagesInTransaction exclusive transaction previous t1
                      else Ok (transaction, t1)) of
                  Failure f \<Rightarrow> Failure f
                | Ok (transaction1, t2) \<Rightarrow> Ok (page_id, AddIntoPageSet transaction1 page_id, t2))))"

text \<open>
  \<^verbatim>\<open>FindLeafPage\<close>. The loop runs down the tree from the root; \<open>fuel\<close> bounds
  the number of pages it visits, and the loop fails with \<open>OutOfFuel\<close> when the
  bound is reached before a leaf. The result is the pointer to the leaf, or the null
  pointer (\<open>None\<close>) for the empty tree.
\<close>

fun FindLeafPage_loop ::
  "nat \<Rightarrow> ('k \<Rightarrow> 'k \<Rightarrow> int) \<Rightarrow> 'k \<Rightarrow> bool \<Rightarrow> OpType \<Rightarrow> page_id_t \<Rightarrow> page_id_t
     \<Rightarrow> Transaction option \<Rightarrow> ('k, 'v) BPlusTree
     \<Rightarrow> (page_id_t \<times> Transaction option \<times> ('k, 'v) BPlusTree) result" where
  "FindLeafPage_loop 0 comparator key leftMost op pointer cur transaction t = Failure OutOfFuel"
| "FindLeafPage_loop (Suc fuel) comparator key leftMost op pointer cur transaction t =
     (case page_at t pointer of
        None \<Rightarrow> Failure NullPointer
      | Some (HEADER_PAGE h) \<Rightarrow> Failure WrongPageType
      | Some INVALID_INDEX_PAGE \<Rightarrow> Failure WrongPageType
      | Some (LEAF_PAGE leaf) \<Rightarrow> Ok (pointer, transaction, t)
      | Some (INTERNAL_PAGE internalPage) \<Rightarrow>
          (case (if leftMost then ValueAt internalPage 0
                 else Internal_Lookup internalPage key comparator) of
             Failure f \<Rightarrow> Failure f
           | Ok next \<Rightarrow>
               (case CrabingProtocalFetchPage next op cur transaction t of
                  Failure f \<Rightarrow> Failure f
                | Ok (pointer1, transaction1, t1) \<Rightarrow>
                    FindLeafPage_loop fuel comparator key leftMost op pointer1 next
                      transaction1 t1)))"

definition FindLeafPage ::
  "nat \<Rightarrow> ('k \<Rightarrow> 'k \<Rightarrow> int) \<Rightarrow> 'k \<Rightarrow> bool \<Rightarrow> OpType \<Rightarrow> Transaction option
     \<Rightarrow> ('k, 'v) BPlusTree
     \<Rightarrow> (page_id_t option \<times> Transaction option \<times> ('k, 'v) BPlusTree) result" where
  "FindLeafPage fuel comparator key leftMost op transaction t =
     (if IsEmpty t then Ok (None, transaction, t)
      else
        (case CrabingProtocalFetchPage (root_page_id_' t) op (- 1) transaction t of
           Failure f \<Rightarrow> Failure f
         | Ok (pointer, transaction1, t1) \<Rightarrow>
             (case FindLeafPage_loop fuel comparator key leftMost op pointer (root_page_id_' t1)
                     transaction1 t1 of
                Failure f \<Rightarrow> Failure f
              | Ok (leaf, transaction2, t2) \<Rightarrow> Ok (Some leaf, transaction2, t2))))"

subsection \<open>Point query\<close>

definition GetValue ::
  "nat \<Rightarrow> ('k \<Rightarrow> 'k \<Rightarrow> int) \<Rightarrow> 'k \<Rightarrow> Transaction option \<Rightarrow> ('k, 'v) BPlusTree
     \<Rightarrow> ('v option \<times> Transaction option \<times> ('k, 'v) BPlusTree) result" where
  "GetValue fuel comparator key transaction t =
     (case FindLeafPage fuel comparator key False OpType_READ transaction t of
        Failure f \<Rightarrow> Failure f
      | Ok (None, transaction1, t1) \<Rightarrow> Ok (None, transaction1, t1)
      | Ok (Some tar, transaction1, t1) \<Rightarrow>
          (case page_at t1 tar of
             Some (LEAF_PAGE leaf) \<Rightarrow>
               (case Leaf_Lookup leaf key comparator of
                  Failure f \<Rightarrow> Failure f
                | Ok ret \<Rightarrow>
                    (case FreePagesInTransaction False transaction1 (page_id_' leaf) t1 of
                       Failure f \<Rightarrow> Failure f
                     | Ok (transaction2, t2) \<Rightarrow> Ok (ret, transaction2, t2)))
           | other \<Rightarrow> Failure WrongPageType))"

subsection \<open>Index iterator\<close>

text \<open>
  Modelled from the spec: the constructor of \<^verbatim>\<open>IndexIterator\<close>
  (\<^verbatim>\<open>index_iterator.cpp\<close>) is not part of the sources; the iterator holds the
  leaf page, the index and the buffer pool (the tree's, here). The rest is
  \<^verbatim>\<open>index_iterator.h\<close>. Dereferencing the null \<^verbatim>\<open>leaf_\<close> is the failure
  \<open>NullPointer\<close>.
\<close>

record IndexIterator =
  index_' :: int
  leaf_' :: "page_id_t option"

definition new_IndexIterator :: "page_id_t option \<Rightarrow> int \<Rightarrow> IndexIterator" where
  "new_IndexIterator leaf index = \<lparr>index_' = index, leaf_' = leaf\<rparr>"

definition isEnd :: "IndexIterator \<Rightarrow> bool" where
  "isEnd it = (leaf_' it = None)"

definition leaf_of :: "('k, 'v) BPlusTree \<Rightarrow> page_id_t option \<Rightarrow> ('k, 'v) BPlusTreeLeafPage result" where
  "leaf_of t leaf =
     (case leaf of
        None \<Rightarrow> Failure NullPointer
      | Some pointer \<Rightarrow>
          (case page_at t pointer of
             Some (LEAF_PAGE p) \<Rightarrow> Ok p
           | Some other \<Rightarrow> Failure WrongPageType
           | None \<Rightarrow> Failure NullPointer))"

definition Iterator_deref :: "IndexIterator \<Rightarrow> ('k, 'v) BPlusTree \<Rightarrow> ('k \<times> 'v) result" where
  "Iterator_deref it t =
     (case leaf_of t (leaf_' it) of
        Failure f \<Rightarrow> Failure f
      | Ok p \<Rightarrow> GetItem p (index_' it))"

definition UnlockAndUnPin :: "IndexIterator \<Rightarrow> ('k, 'v) BPlusTree \<Rightarrow> ('k, 'v) BPlusTree result" where
  "UnlockAndUnPin it t =
     (case leaf_of t (leaf_' it) of
        Failure f \<Rightarrow> Failure f
      | Ok p \<Rightarrow>
          (case Tree_FetchPage t (page_id_' p) of
             Failure f \<Rightarrow> Failure f
           | Ok (page, t1) \<Rightarrow> Ok (unpin (unpin t1 (page_id_' p) False) (page_id_' p) False)))"

definition Iterator_next ::
  "IndexIterator \<Rightarrow> ('k, 'v) BPlusTree \<Rightarrow> (IndexIterator \<times> ('k, 'v) BPlusTree) result" where
  "Iterator_next it t =
     (let it1 = it\<lparr>index_' := index_' it + 1\<rparr> in
      case leaf_of t (leaf_' it1) of
        Failure f \<Rightarrow> Failure f
      | Ok p \<Rightarrow>
          if index_' it1 \<ge> GetSize p
          then
            (let next = next_page_id_' p in
             case UnlockAndUnPin it1 t of
               Failure f \<Rightarrow> Failure f
             | Ok t1 \<Rightarrow>
                 if next = INVALID_PAGE_ID then Ok (it1\<lparr>leaf_' := None\<rparr>, t1)
                 else
                   (case Tree_FetchPage t1 next of
                      Failure f \<Rightarrow> Failure f
                    | Ok (page, t2) \<Rightarrow> Ok (it1\<lparr>leaf_' := Some next, index_' := 0\<rparr>, t2)))
          else Ok (it1, t))"

text \<open>
  \<^verbatim>\<open>Begin()\<close> and \<^verbatim>\<open>Begin(key)\<close>. \<^verbatim>\<open>Begin()\<close> passes an
  uninitialised key to \<^verbatim>\<open>FindLeafPage\<close>, the argument \<open>useless\<close> here; both
  call \<^verbatim>\<open>FindLeafPage\<close> for a READ without a transaction.
\<close>

definition Begin ::
  "nat \<Rightarrow> ('k \<Rightarrow> 'k \<Rightarrow> int) \<Rightarrow> 'k \<Rightarrow> ('k, 'v) BPlusTree
     \<Rightarrow> (IndexIterator \<times> ('k, 'v) BPlusTree) result" where
  "Begin fuel comparator useless t =
     (case FindLeafPage fuel comparator useless True OpType_READ None t of
        Failure f \<Rightarrow> Failure f
      | Ok (start_leaf, transaction, t1) \<Rightarrow> Ok (new_IndexIterator start_leaf 0, t1))"

definition Begin_key ::
  "nat \<Rightarrow> ('k \<Rightarrow> 'k \<Rightarrow> int) \<Rightarrow> 'k \<Rightarrow> ('k, 'v) BPlusTree
     \<Rightarrow> (IndexIterator \<times> ('k, 'v) BPlusTree) result" where
  "Begin_key fuel comparator key t =
     (case FindLeafPage fuel comparator key False OpType_READ None t of
        Failure f \<Rightarrow> Failure f
      | Ok (None, transaction, t1) \<Rightarrow> Ok (new_IndexIterator None 0, t1)
      | Ok (Some start_leaf, transaction, t1) \<Rightarrow>
          (case leaf_of t1 (Some start_leaf) of
             Failure f \<Rightarrow> Failure f
           | Ok p \<Rightarrow>
               (case KeyIndex p key comparator of
                  None \<Rightarrow> Failure OutOfBounds
                | Some idx \<Rightarrow> Ok (new_IndexIterator (Some start_leaf) idx, t1))))"

text \<open>
  An empty tree, for the examples: the buffer pool holds the header page alone.
\<close>

definition example_empty_tree :: "(int, RID) BPlusTree" where
  "example_empty_tree =
     \<lparr>index_name_' = ''index'', root_page_id_' = INVALID_PAGE_ID,
      buffer_pool_manager_' =
        \<lparr>pages = [HEADER_PAGE_ID \<mapsto> HEADER_PAGE []], pin_count = (\<lambda>p. 0),
         is_dirty = (\<lambda>p. False), next_new_page_id = 1\<rparr>,
      leaf_max_size = 3, internal_max_size = 3, CoalesceOrRedistribute_calls = []\<rparr>"

subsection \<open>Pages seen through a pointer\<close>

definition Page_GetPageId :: "('k, 'v) Page \<Rightarrow> page_id_t result" where
  "Page_GetPageId page =
     (case page of
        LEAF_PAGE p \<Rightarrow> Ok (page_id_' p)
      | INTERNAL_PAGE p \<Rightarrow> Ok (page_id_' p)
      | other \<Rightarrow> Failure WrongPageType)"

definition Page_GetParentPageId :: "('k, 'v) Page \<Rightarrow> page_id_t result" where
  "Page_GetParentPageId page =
     (case page of
        LEAF_PAGE p \<Rightarrow> Ok (parent_page_id_' p)
      | INTERNAL_PAGE p \<Rightarrow> Ok (parent_page_id_' p)
      | other \<Rightarrow> Failure WrongPageType)"

definition Page_KeyAt :: "('k, 'v) Page \<Rightarrow> int \<Rightarrow> 'k result" where
  "Page_KeyAt page index =
     (case page of
        LEAF_PAGE p \<Rightarrow> KeyAt p index
      | INTERNAL_PAGE p \<Rightarrow> KeyAt p index
      | other \<Rightarrow> Failure WrongPageType)"

definition deref :: "('k, 'v) BPlusTree \<Rightarrow> page_id_t \<Rightarrow> ('k, 'v) Page result" where
  "deref t pointer =
     (case page_at t pointer of None \<Rightarrow> Failure NullPointer | Some page \<Rightarrow> Ok page)"

definition internal_of :: "('k, 'v) BPlusTree \<Rightarrow> page_id_t \<Rightarrow> 'k BPlusTreeInternalPage result" where
  "internal_of t pointer =
     (case page_at t pointer of
        Some (INTERNAL_PAGE p) \<Rightarrow> Ok p
      | Some other \<Rightarrow> Failure WrongPageType
      | None \<Rightarrow> Failure NullPointer)"

text \<open>
  Modelled from the spec: the functions of the internal page that use the buffer pool.
  A page that receives children fetches each of them, sets its parent page id and
  unpins it (\<open>reparent\<close>). \<^verbatim>\<open>MoveHalfTo\<close> moves the upper half of the slots
  to the recipient. \<^verbatim>\<open>MoveAllTo\<close> appends all slots to the recipient (the left
  sibling), the unused key of slot 0 replaced by the parent's separator.
  \<^verbatim>\<open>MoveFirstToEndOf\<close> and \<^verbatim>\<open>MoveLastToFrontOf\<close> move one slot to the
  sibling and set the parent's separator to the new boundary.
\<close>

fun reparent :: "page_id_t list \<Rightarrow> page_id_t \<Rightarrow> ('k, 'v) BPlusTree \<Rightarrow> ('k, 'v) BPlusTree result" where
  "reparent [] parent_id t = Ok t"
| "reparent (child # children) parent_id t =
     (case Tree_FetchPage t child of
        Failure f \<Rightarrow> Failure f
      | Ok (page, t1) \<Rightarrow>
          (case Page_SetParentPageId page parent_id of
             Failure f \<Rightarrow> Failure f
           | Ok page1 \<Rightarrow> reparent children parent_id (unpin (set_page t1 child page1) child True)))"

definition Internal_MoveHalfTo ::
  "page_id_t \<Rightarrow> page_id_t \<Rightarrow> ('k, 'v) BPlusTree \<Rightarrow> ('k, 'v) BPlusTree result" where
  "Internal_MoveHalfTo node recipient t =
     (case internal_of t node of
        Failure f \<Rightarrow> Failure f
      | Ok p \<Rightarrow>
          (case internal_of t recipient of
             Failure f \<Rightarrow> Failure f
           | Ok r \<Rightarrow>
               (let total = max_size_' p + 1 in
                if GetSize p \<noteq> total then Failure AssertionFailed
                else
                  (let copyIdx = nat (total div 2);
                       t1 = set_page t node (INTERNAL_PAGE (p\<lparr>array := take copyIdx (array p)\<rparr>));
                       t2 = set_page t1 recipient
                              (INTERNAL_PAGE (r\<lparr>array := drop copyIdx (array p)\<rparr>))
                   in reparent (map snd (drop copyIdx (array p))) recipient t2))))"

definition Internal_MoveAllTo ::
  "page_id_t \<Rightarrow> page_id_t \<Rightarrow> int \<Rightarrow> ('k, 'v) BPlusTree \<Rightarrow> ('k, 'v) BPlusTree result" where
  "Internal_MoveAllTo node recipient index_in_parent t =
     (case internal_of t node of
        Failure f \<Rightarrow> Failure f
      | Ok p \<Rightarrow>
          (case Tree_FetchPage t (parent_page_id_' p) of
             Failure f \<Rightarrow> Failure f
           | Ok (INTERNAL_PAGE parent, t1) \<Rightarrow>
               (case KeyAt parent index_in_parent of
                  Failure f \<Rightarrow> Failure f
                | Ok separator \<Rightarrow>
                    (let t2 = unpin t1 (parent_page_id_' p) False in
                     case internal_of t2 recipient of
                       Failure f \<Rightarrow> Failure f
                     | Ok r \<Rightarrow>
                         (let moved = (case array p of
                                         [] \<Rightarrow> []
                                       | slot # slots \<Rightarrow> (separator, snd slot) # slots);
                              t3 = set_page t2 recipient
                                     (INTERNAL_PAGE (r\<lparr>array := array r @ moved\<rparr>));
                              t4 = set_page t3 node (INTERNAL_PAGE (p\<lparr>array := []\<rparr>))
                          in reparent (map snd moved) recipient t4)))
           | Ok (other, t1) \<Rightarrow> Failure WrongPageType))"

definition Internal_MoveFirstToEndOf ::
  "page_id_t \<Rightarrow> page_id_t \<Rightarrow> ('k, 'v) BPlusTree \<Rightarrow> ('k, 'v) BPlusTree result" where
  "Internal_MoveFirstToEndOf neighbor recipient t =
     (case internal_of t neighbor of
        Failure f \<Rightarrow> Failure f
      | Ok p \<Rightarrow>
          (case array p of
             (k0, c0) # (k1, c1) # slots \<Rightarrow>
               (case Tree_FetchPage t (parent_page_id_' p) of
                  Failure f \<Rightarrow> Failure f
                | Ok (INTERNAL_PAGE parent, t1) \<Rightarrow>
                    (case KeyAt parent (ValueIndex parent (page_id_' p)) of
                       Failure f \<Rightarrow> Failure f
                     | Ok separator \<Rightarrow>
                         (case SetKeyAt parent (ValueIndex parent (page_id_' p)) k1 of
                            Failure f \<Rightarrow> Failure f
                          | Ok parent1 \<Rightarrow>
                              (let t2 = unpin (set_page t1 (parent_page_id_' p) (INTERNAL_PAGE parent1))
                                          (parent_page_id_' p) True;
                                   t3 = set_page t2 neighbor
                                          (INTERNAL_PAGE (p\<lparr>array := (k1, c1) # slots\<rparr>))
                               in case internal_of t3 recipient of
                                    Failure f \<Rightarrow> Failure f
                                  | Ok r \<Rightarrow>
                                      reparent [c0] recipient
                                        (set_page t3 recipient
                                           (INTERNAL_PAGE (r\<lparr>array := array r @ [(separator, c0)]\<rparr>))))))
                | Ok (other, t1) \<Rightarrow> Failure WrongPageType)
           | short \<Rightarrow> Failure OutOfBounds))"

definition Internal_MoveLastToFrontOf ::
  "page_id_t \<Rightarrow> page_id_t \<Rightarrow> int \<Rightarrow> ('k, 'v) BPlusTree \<Rightarrow> ('k, 'v) BPlusTree result" where
  "Internal_MoveLastToFrontOf neighbor recipient parent_index t =
     (case internal_of t neighbor of
        Failure f \<Rightarrow> Failure f
      | Ok p \<Rightarrow>
          if array p = [] then Failure OutOfBounds
          else
            (let (k_last, c_last) = last (array p);
                 t1 = set_page t neighbor (INTERNAL_PAGE (p\<lparr>array := butlast (array p)\<rparr>))
             in case internal_of t1 recipient of
                  Failure f \<Rightarrow> Failure f
                | Ok r \<Rightarrow>
                    (case Tree_FetchPage t1 (parent_page_id_' r) of
                       Failure f \<Rightarrow> Failure f
                     | Ok (INTERNAL_PAGE parent, t2) \<Rightarrow>
                         (case KeyAt parent parent_index of
                            Failure f \<Rightarrow> Failure f
                          | Ok separator \<Rightarrow>
                              (case SetKeyAt parent parent_index k_last of
                                 Failure f \<Rightarrow> Failure f
                               | Ok parent1 \<Rightarrow>
                                   (let t3 = unpin (set_page t2 (parent_page_id_' r)
                                                      (INTERNAL_PAGE parent1))
                                               (parent_page_id_' r) True;
                                        slots = (case array r of
                                                   [] \<Rightarrow> []
                                                 | slot # rest \<Rightarrow> (separator, snd slot) # rest)
                                    in reparent [c_last] recipient
                                         (set_page t3 recipient
                                            (INTERNAL_PAGE (r\<lparr>array := (k_last, c_last) # slots\<rparr>))))))
                     | Ok (other, t2) \<Rightarrow> Failure WrongPageType)))"

subsection \<open>Leaf page functions that use the buffer pool\<close>

definition leaf_at :: "('k, 'v) BPlusTree \<Rightarrow> page_id_t \<Rightarrow> ('k, 'v) BPlusTreeLeafPage result" where
  "leaf_at t pointer = leaf_of t (Some pointer)"

text \<open>
  \<^verbatim>\<open>MoveFirstToEndOf\<close>: after the first pair has left, \<^verbatim>\<open>array[0].first\<close> is
  the next key, or, when the page is empty now, what the slot still holds: the key
  that left.
\<close>

definition Leaf_MoveFirstToEndOf ::
  "page_id_t \<Rightarrow> page_id_t \<Rightarrow> ('k, 'v) BPlusTree \<Rightarrow> ('k, 'v) BPlusTree result" where
  "Leaf_MoveFirstToEndOf neighbor recipient t =
     (case leaf_at t neighbor of
        Failure f \<Rightarrow> Failure f
      | Ok p \<Rightarrow>
          (case GetItem p 0 of
             Failure f \<Rightarrow> Failure f
           | Ok pair \<Rightarrow>
               (let p1 = p\<lparr>array := tl (array p)\<rparr>;
                    t1 = set_page t neighbor (LEAF_PAGE p1)
                in case leaf_at t1 recipient of
                     Failure f \<Rightarrow> Failure f
                   | Ok r \<Rightarrow>
                       (case CopyLastFrom r pair of
                          Failure f \<Rightarrow> Failure f
                        | Ok r1 \<Rightarrow>
                            (let t2 = set_page t1 recipient (LEAF_PAGE r1) in
                             case Tree_FetchPage t2 (parent_page_id_' p1) of
                               Failure f \<Rightarrow> Failure f
                             | Ok (INTERNAL_PAGE parent, t3) \<Rightarrow>
                                 (case SetKeyAt parent (ValueIndex parent (page_id_' p1))
                                         (case array p1 of [] \<Rightarrow> fst pair | slot # slots \<Rightarrow> fst slot) of
                                    Failure f \<Rightarrow> Failure f
                                  | Ok parent1 \<Rightarrow>
                                      Ok (unpin (set_page t3 (parent_page_id_' p1) (INTERNAL_PAGE parent1))
                                            (parent_page_id_' p1) True))
                             | Ok (other, t3) \<Rightarrow> Failure WrongPageType)))))"

definition CopyFirstFrom ::
  "page_id_t \<Rightarrow> ('k \<times> 'v) \<Rightarrow> int \<Rightarrow> ('k, 'v) BPlusTree \<Rightarrow> ('k, 'v) BPlusTree result" where
  "CopyFirstFrom recipient item parentIndex t =
     (case leaf_at t recipient of
        Failure f \<Rightarrow> Failure f
      | Ok r \<Rightarrow>
          if \<not> (GetSize r + 1 < max_size_' r) then Failure AssertionFailed
          else
            (let r1 = r\<lparr>array := item # array r\<rparr>;
                 t1 = set_page t recipient (LEAF_PAGE r1)
             in case Tree_FetchPage t1 (parent_page_id_' r1) of
                  Failure f \<Rightarrow> Failure f
                | Ok (INTERNAL_PAGE parent, t2) \<Rightarrow>
                    (case SetKeyAt parent parentIndex (fst item) of
                       Failure f \<Rightarrow> Failure f
                     | Ok parent1 \<Rightarrow>
                         Ok (unpin (set_page t2 (parent_page_id_' r1) (INTERNAL_PAGE parent1))
                               (parent_page_id_' r1) True))
                | Ok (other, t2) \<Rightarrow> Failure WrongPageType))"

definition Leaf_MoveLastToFrontOf ::
  "page_id_t \<Rightarrow> page_id_t \<Rightarrow> int \<Rightarrow> ('k, 'v) BPlusTree \<Rightarrow> ('k, 'v) BPlusTree result" where
  "Leaf_MoveLastToFrontOf neighbor recipient parentIndex t =
     (case leaf_at t neighbor of
        Failure f \<Rightarrow> Failure f
      | Ok p \<Rightarrow>
          (case GetItem p (GetSize p - 1) of
             Failure f \<Rightarrow> Failure f
           | Ok pair \<Rightarrow>
               CopyFirstFrom recipient pair parentIndex
                 (set_page t neighbor (LEAF_PAGE (p\<lparr>array := butlast (array p)\<rparr>)))))"

subsection \<open>Insertion\<close>

definition Tree_NewPage :: "('k, 'v) BPlusTree \<Rightarrow> page_id_t \<times> ('k, 'v) BPlusTree" where
  "Tree_NewPage t =
     (case NewPage (buffer_pool_manager_' t) INVALID_INDEX_PAGE of
        (newPageId, bpm) \<Rightarrow> (newPageId, t\<lparr>buffer_pool_manager_' := bpm\<rparr>))"

definition StartNewTree :: "('k \<Rightarrow> 'k \<Rightarrow> int) \<Rightarrow> 'k \<Rightarrow> 'v \<Rightarrow> ('k, 'v) BPlusTree \<Rightarrow> ('k, 'v) BPlusTree result" where
  "StartNewTree comparator key value t =
     (case Tree_NewPage t of
        (newPageId, t1) \<Rightarrow>
          (let root = Leaf_Init (leaf_max_size t1) newPageId INVALID_PAGE_ID;
               t2 = (set_page t1 newPageId (LEAF_PAGE root))\<lparr>root_page_id_' := newPageId\<rparr>
           in case UpdateRootPageId True t2 of
                Failure f \<Rightarrow> Failure f
              | Ok t3 \<Rightarrow>
                  (case leaf_at t3 newPageId of
                     Failure f \<Rightarrow> Failure f
                   | Ok root1 \<Rightarrow>
                       (case Leaf_Insert root1 key value comparator of
                          Failure f \<Rightarrow> Failure f
                        | Ok root2 \<Rightarrow>
                            Ok (unpin (set_page t3 newPageId (LEAF_PAGE root2)) newPageId True)))))"

text \<open>
  \<^verbatim>\<open>Split\<close>, for a leaf and for an internal page: a new page is allocated, joins
  the page set of the transaction, is initialised with the parent of \<open>node\<close>, and
  receives the upper half of \<open>node\<close>.
\<close>

definition Split ::
  "page_id_t \<Rightarrow> Transaction option \<Rightarrow> ('k, 'v) BPlusTree
     \<Rightarrow> (page_id_t \<times> Transaction option \<times> ('k, 'v) BPlusTree) result" where
  "Split node transaction t =
     (case Tree_NewPage t of
        (newPageId, t1) \<Rightarrow>
          if transaction = None then Failure NullPointer
          else
            (let transaction1 = AddIntoPageSet transaction newPageId in
             case deref t1 node of
               Failure f \<Rightarrow> Failure f
             | Ok (LEAF_PAGE p) \<Rightarrow>
                 (case Leaf_MoveHalfTo p (Leaf_Init (leaf_max_size t1) newPageId (parent_page_id_' p)) of
                    Failure f \<Rightarrow> Failure f
                  | Ok (p1, newNode) \<Rightarrow>
                      Ok (newPageId, transaction1,
                          set_page (set_page t1 newPageId (LEAF_PAGE newNode)) node (LEAF_PAGE p1)))
             | Ok (INTERNAL_PAGE p) \<Rightarrow>
                 (case Internal_MoveHalfTo node newPageId
                         (set_page t1 newPageId
                            (INTERNAL_PAGE (Internal_Init (internal_max_size t1) newPageId
                                              (parent_page_id_' p)))) of
                    Failure f \<Rightarrow> Failure f
                  | Ok t2 \<Rightarrow> Ok (newPageId, transaction1, t2))
             | Ok other \<Rightarrow> Failure WrongPageType))"

text \<open>
  \<^verbatim>\<open>InsertIntoParent\<close>; \<open>fuel\<close> bounds the depth of its recursion up the
  tree.
\<close>

fun InsertIntoParent ::
  "nat \<Rightarrow> page_id_t \<Rightarrow> 'k \<Rightarrow> page_id_t \<Rightarrow> Transaction option \<Rightarrow> ('k, 'v) BPlusTree
     \<Rightarrow> (Transaction option \<times> ('k, 'v) BPlusTree) result" where
  "InsertIntoParent 0 old_node key new_node transaction t = Failure OutOfFuel"
| "InsertIntoParent (Suc fuel) old_node key new_node transaction t =
     (case deref t old_node of
        Failure f \<Rightarrow> Failure f
      | Ok oldPage \<Rightarrow>
     (case Page_GetParentPageId oldPage of
        Failure f \<Rightarrow> Failure f
      | Ok parentId \<Rightarrow>
     (case Page_GetPageId oldPage of
        Failure f \<Rightarrow> Failure f
      | Ok oldId \<Rightarrow>
     (case deref t new_node of
        Failure f \<Rightarrow> Failure f
      | Ok newPage \<Rightarrow>
     (case Page_GetPageId newPage of
        Failure f \<Rightarrow> Failure f
      | Ok newId \<Rightarrow>
          if parentId = INVALID_PAGE_ID
          then
            (case Tree_NewPage t of
               (rootId, t0) \<Rightarrow>
                 (let t1 = t0\<lparr>root_page_id_' := rootId\<rparr> in
                  if pin_count (buffer_pool_manager_' t1) rootId \<noteq> 1 then Failure AssertionFailed
                  else
                    (let newRoot = PopulateNewRoot
                                     (Internal_Init (internal_max_size t1) rootId INVALID_PAGE_ID)
                                     oldId key newId;
                         t2 = set_page t1 rootId (INTERNAL_PAGE newRoot)
                     in case deref t2 old_node of
                          Failure f \<Rightarrow> Failure f
                        | Ok oldPage1 \<Rightarrow>
                     (case Page_SetParentPageId oldPage1 rootId of
                          Failure f \<Rightarrow> Failure f
                        | Ok oldPage2 \<Rightarrow>
                     (let t3 = set_page t2 old_node oldPage2 in
                      case deref t3 new_node of
                          Failure f \<Rightarrow> Failure f
                        | Ok newPage1 \<Rightarrow>
                     (case Page_SetParentPageId newPage1 rootId of
                          Failure f \<Rightarrow> Failure f
                        | Ok newPage2 \<Rightarrow>
                     (case UpdateRootPageId False (set_page t3 new_node newPage2) of
                          Failure f \<Rightarrow> Failure f
                        | Ok t4 \<Rightarrow>
                     (case internal_of t4 rootId of
                          Failure f \<Rightarrow> Failure f
                        | Ok newRoot1 \<Rightarrow> Ok (transaction, unpin t4 (page_id_' newRoot1) True)))))))))
          else
            (case Tree_FetchPage t parentId of
               Failure f \<Rightarrow> Failure f
             | Ok (page, t1) \<Rightarrow>
            (case deref t1 new_node of
               Failure f \<Rightarrow> Failure f
             | Ok newPage1 \<Rightarrow>
            (case Page_SetParentPageId newPage1 parentId of
               Failure f \<Rightarrow> Failure f
             | Ok newPage2 \<Rightarrow>
            (let t2 = set_page t1 new_node newPage2 in
             case internal_of t2 parentId of
               Failure f \<Rightarrow> Failure f
             | Ok parent \<Rightarrow>
            (let parent1 = InsertNodeAfter parent oldId key newId;
                 t3 = set_page t2 parentId (INTERNAL_PAGE parent1)
             in if GetSize parent1 > max_size_' parent1
                then
                  (case Split parentId transaction t3 of
                     Failure f \<Rightarrow> Failure f
                   | Ok (newLeafPage, transaction1, t4) \<Rightarrow>
                  (case deref t4 newLeafPage of
                     Failure f \<Rightarrow> Failure f
                   | Ok splitPage \<Rightarrow>
                  (case Page_KeyAt splitPage 0 of
                     Failure f \<Rightarrow> Failure f
                   | Ok separator \<Rightarrow>
                  (case InsertIntoParent fuel parentId separator newLeafPage transaction1 t4 of
                     Failure f \<Rightarrow> Failure f
                   | Ok (transaction2, t5) \<Rightarrow> Ok (transaction2, unpin t5 parentId True)))))
                else Ok (transaction, unpin t3 parentId True)))))))))))"

text \<open>
  \<^verbatim>\<open>InsertIntoLeaf\<close> and \<^verbatim>\<open>Insert\<close>. The fuel bounds the descent of
  \<^verbatim>\<open>FindLeafPage\<close> and the recursion of \<^verbatim>\<open>InsertIntoParent\<close>.
\<close>

definition InsertIntoLeaf ::
  "nat \<Rightarrow> ('k \<Rightarrow> 'k \<Rightarrow> int) \<Rightarrow> 'k \<Rightarrow> 'v \<Rightarrow> Transaction option \<Rightarrow> ('k, 'v) BPlusTree
     \<Rightarrow> (bool \<times> Transaction option \<times> ('k, 'v) BPlusTree) result" where
  "InsertIntoLeaf fuel comparator key value transaction t =
     (case FindLeafPage fuel comparator key False OpType_INSERT transaction t of
        Failure f \<Rightarrow> Failure f
      | Ok (None, transaction1, t1) \<Rightarrow> Failure NullPointer
      | Ok (Some leafPage, transaction1, t1) \<Rightarrow>
     (case leaf_at t1 leafPage of
        Failure f \<Rightarrow> Failure f
      | Ok p \<Rightarrow>
     (case Leaf_Lookup p key comparator of
        Failure f \<Rightarrow> Failure f
      | Ok (Some v) \<Rightarrow>
          (case FreePagesInTransaction True transaction1 (- 1) t1 of
             Failure f \<Rightarrow> Failure f
           | Ok (transaction2, t2) \<Rightarrow> Ok (False, transaction2, t2))
      | Ok None \<Rightarrow>
     (case Leaf_Insert p key value comparator of
        Failure f \<Rightarrow> Failure f
      | Ok p1 \<Rightarrow>
     (let t2 = set_page t1 leafPage (LEAF_PAGE p1) in
      case (if GetSize p1 > max_size_' p1
            then
              (case Split leafPage transaction1 t2 of
                 Failure f \<Rightarrow> Failure f
               | Ok (newLeafPage, transaction2, t3) \<Rightarrow>
              (case leaf_at t3 newLeafPage of
                 Failure f \<Rightarrow> Failure f
               | Ok newLeaf \<Rightarrow>
              (case KeyAt newLeaf 0 of
                 Failure f \<Rightarrow> Failure f
               | Ok separator \<Rightarrow>
                   InsertIntoParent fuel leafPage separator newLeafPage transaction2 t3)))
            else Ok (transaction1, t2)) of
        Failure f \<Rightarrow> Failure f
      | Ok (transaction3, t4) \<Rightarrow>
          (case FreePagesInTransaction True transaction3 (- 1) t4 of
             Failure f \<Rightarrow> Failure f
           | Ok (transaction4, t5) \<Rightarrow> Ok (True, transaction4, t5)))))))"

definition Insert ::
  "nat \<Rightarrow> ('k \<Rightarrow> 'k \<Rightarrow> int) \<Rightarrow> 'k \<Rightarrow> 'v \<Rightarrow> Transaction option \<Rightarrow> ('k, 'v) BPlusTree
     \<Rightarrow> (bool \<times> Transaction option \<times> ('k, 'v) BPlusTree) result" where
  "Insert fuel comparator key value transaction t =
     (if IsEmpty t
      then (case StartNewTree comparator key value t of
              Failure f \<Rightarrow> Failure f
            | Ok t1 \<Rightarrow> Ok (True, transaction, t1))
      else InsertIntoLeaf fuel comparator key value transaction t)"

subsection \<open>Removal\<close>

definition AddIntoDeletedPageSet :: "Transaction option \<Rightarrow> page_id_t \<Rightarrow> Transaction option result" where
  "AddIntoDeletedPageSet transaction page_id =
     (case transaction of
        None \<Rightarrow> Failure NullPointer
      | Some txn \<Rightarrow>
          Ok (Some (txn\<lparr>deleted_page_set_' := uset_insert page_id (deleted_page_set_' txn)\<rparr>)))"

definition AdjustRoot :: "page_id_t \<Rightarrow> ('k, 'v) BPlusTree \<Rightarrow> (bool \<times> ('k, 'v) BPlusTree) result" where
  "AdjustRoot old_root_node t =
     (case deref t old_root_node of
        Failure f \<Rightarrow> Failure f
      | Ok (LEAF_PAGE p) \<Rightarrow>
          if GetSize p \<noteq> 0 \<or> parent_page_id_' p \<noteq> INVALID_PAGE_ID then Failure AssertionFailed
          else (case UpdateRootPageId False (t\<lparr>root_page_id_' := INVALID_PAGE_ID\<rparr>) of
                  Failure f \<Rightarrow> Failure f
                | Ok t1 \<Rightarrow> Ok (True, t1))
      | Ok (INTERNAL_PAGE root) \<Rightarrow>
          if GetSize root = 1
          then
            (case RemoveAndReturnOnlyChild root of
               Failure f \<Rightarrow> Failure f
             | Ok (newRootId, root1) \<Rightarrow>
            (case UpdateRootPageId False
                    ((set_page t old_root_node (INTERNAL_PAGE root1))\<lparr>root_page_id_' := newRootId\<rparr>) of
               Failure f \<Rightarrow> Failure f
             | Ok t1 \<Rightarrow>
            (case FetchPage (buffer_pool_manager_' t1) newRootId of
               (None, bpm) \<Rightarrow> Failure AssertionFailed
             | (Some page, bpm) \<Rightarrow>
            (case Page_SetParentPageId page INVALID_PAGE_ID of
               Failure f \<Rightarrow> Failure f
             | Ok newRoot \<Rightarrow>
                 Ok (True, unpin (set_page (t1\<lparr>buffer_pool_manager_' := bpm\<rparr>) newRootId newRoot)
                             newRootId True)))))
          else Ok (False, t)
      | Ok other \<Rightarrow> Failure WrongPageType)"

definition Page_GetSize :: "('k, 'v) Page \<Rightarrow> int result" where
  "Page_GetSize page =
     (case page of
        LEAF_PAGE p \<Rightarrow> Ok (GetSize p)
      | INTERNAL_PAGE p \<Rightarrow> Ok (GetSize p)
      | other \<Rightarrow> Failure WrongPageType)"

definition Page_GetMaxSize :: "('k, 'v) Page \<Rightarrow> int result" where
  "Page_GetMaxSize page =
     (case page of
        LEAF_PAGE p \<Rightarrow> Ok (max_size_' p)
      | INTERNAL_PAGE p \<Rightarrow> Ok (max_size_' p)
      | other \<Rightarrow> Failure WrongPageType)"

text \<open>
  \<^verbatim>\<open>FindLeftSibling\<close>: the result is the pointer to the sibling and whether it is
  the right sibling.
\<close>

definition FindLeftSibling ::
  "page_id_t \<Rightarrow> Transaction option \<Rightarrow> ('k, 'v) BPlusTree
     \<Rightarrow> ((bool \<times> page_id_t) \<times> Transaction option \<times> ('k, 'v) BPlusTree) result" where
  "FindLeftSibling node transaction t =
     (case deref t node of
        Failure f \<Rightarrow> Failure f
      | Ok nodePage \<Rightarrow>
     (case Page_GetParentPageId nodePage of
        Failure f \<Rightarrow> Failure f
      | Ok parentId \<Rightarrow>
     (case Page_GetPageId nodePage of
        Failure f \<Rightarrow> Failure f
      | Ok nodeId \<Rightarrow>
     (case Tree_FetchPage t parentId of
        Failure f \<Rightarrow> Failure f
      | Ok (INTERNAL_PAGE parent, t1) \<Rightarrow>
          (let index = ValueIndex parent nodeId;
               siblingIndex = (if index = 0 then index + 1 else index - 1)
           in case ValueAt parent siblingIndex of
                Failure f \<Rightarrow> Failure f
              | Ok siblingId \<Rightarrow>
                  (case CrabingProtocalFetchPage siblingId OpType_DELETE (- 1) transaction t1 of
                     Failure f \<Rightarrow> Failure f
                   | Ok (sibling, transaction1, t2) \<Rightarrow>
                       (case internal_of t2 parentId of
                          Failure f \<Rightarrow> Failure f
                        | Ok parent1 \<Rightarrow>
                            Ok ((index = 0, sibling), transaction1,
                                unpin t2 (page_id_' parent1) False))))
      | Ok (other, t1) \<Rightarrow> Failure WrongPageType))))"

text \<open>
  \<^verbatim>\<open>Redistribute\<close> and \<^verbatim>\<open>MoveAllTo\<close>, for a leaf and for an internal page.
\<close>

definition Redistribute ::
  "page_id_t \<Rightarrow> page_id_t \<Rightarrow> int \<Rightarrow> ('k, 'v) BPlusTree \<Rightarrow> ('k, 'v) BPlusTree result" where
  "Redistribute neighbor_node node index t =
     (case deref t node of
        Failure f \<Rightarrow> Failure f
      | Ok (LEAF_PAGE p) \<Rightarrow>
          if index = 0 then Leaf_MoveFirstToEndOf neighbor_node node t
          else Leaf_MoveLastToFrontOf neighbor_node node index t
      | Ok (INTERNAL_PAGE p) \<Rightarrow>
          if index = 0 then Internal_MoveFirstToEndOf neighbor_node node t
          else Internal_MoveLastToFrontOf neighbor_node node index t
      | Ok other \<Rightarrow> Failure WrongPageType)"

definition MoveAllTo ::
  "page_id_t \<Rightarrow> page_id_t \<Rightarrow> int \<Rightarrow> ('k, 'v) BPlusTree \<Rightarrow> ('k, 'v) BPlusTree result" where
  "MoveAllTo node recipient index t =
     (case deref t node of
        Failure f \<Rightarrow> Failure f
      | Ok (LEAF_PAGE p) \<Rightarrow>
          (case leaf_at t recipient of
             Failure f \<Rightarrow> Failure f
           | Ok r \<Rightarrow>
               (case Leaf_MoveAllTo p r of
                  (p1, r1) \<Rightarrow>
                    Ok (set_page (set_page t recipient (LEAF_PAGE r1)) node (LEAF_PAGE p1))))
      | Ok (INTERNAL_PAGE p) \<Rightarrow> Internal_MoveAllTo node recipient index t
      | Ok other \<Rightarrow> Failure WrongPageType)"

text \<open>
  \<^verbatim>\<open>Coalesce\<close>. Its last step is the recursive call of
  \<^verbatim>\<open>CoalesceOrRedistribute\<close> on the parent, the argument
  \<open>CoalesceOrRedistribute\<close> here.
\<close>

definition Coalesce ::
  "(page_id_t \<Rightarrow> Transaction option \<Rightarrow> ('k, 'v) BPlusTree
      \<Rightarrow> (bool \<times> Transaction option \<times> ('k, 'v) BPlusTree) result)
   \<Rightarrow> page_id_t \<Rightarrow> page_id_t \<Rightarrow> page_id_t \<Rightarrow> int \<Rightarrow> Transaction option \<Rightarrow> ('k, 'v) BPlusTree
   \<Rightarrow> (bool \<times> Transaction option \<times> ('k, 'v) BPlusTree) result" where
  "Coalesce CoalesceOrRedistribute neighbor_node node parent index transaction t =
     (case deref t node of
        Failure f \<Rightarrow> Failure f
      | Ok nodePage \<Rightarrow>
     (case deref t neighbor_node of
        Failure f \<Rightarrow> Failure f
      | Ok neighborPage \<Rightarrow>
     (case Page_GetSize nodePage of
        Failure f \<Rightarrow> Failure f
      | Ok nodeSize \<Rightarrow>
     (case Page_GetSize neighborPage of
        Failure f \<Rightarrow> Failure f
      | Ok neighborSize \<Rightarrow>
     (case Page_GetMaxSize nodePage of
        Failure f \<Rightarrow> Failure f
      | Ok nodeMaxSize \<Rightarrow>
          if \<not> (nodeSize + neighborSize \<le> nodeMaxSize) then Failure AssertionFailed
          else
            (case MoveAllTo node neighbor_node index t of
               Failure f \<Rightarrow> Failure f
             | Ok t1 \<Rightarrow>
            (case deref t1 node of
               Failure f \<Rightarrow> Failure f
             | Ok nodePage1 \<Rightarrow>
            (case Page_GetPageId nodePage1 of
               Failure f \<Rightarrow> Failure f
             | Ok nodeId \<Rightarrow>
            (case AddIntoDeletedPageSet transaction nodeId of
               Failure f \<Rightarrow> Failure f
             | Ok transaction1 \<Rightarrow>
            (case internal_of t1 parent of
               Failure f \<Rightarrow> Failure f
             | Ok parentPage \<Rightarrow>
            (case Internal_Remove parentPage index of
               Failure f \<Rightarrow> Failure f
             | Ok parentPage1 \<Rightarrow>
                 (let t2 = set_page t1 parent (INTERNAL_PAGE parentPage1) in
                  if GetSize parentPage1 \<le> GetMinSize False parentPage1
                  then CoalesceOrRedistribute parent transaction1 t2
                  else Ok (False, transaction1, t2)))))))))))))"

text \<open>
  \<^verbatim>\<open>CoalesceOrRedistribute\<close>; \<open>fuel\<close> bounds the depth of the recursion up
  the tree through \<^verbatim>\<open>Coalesce\<close>.
\<close>

primrec CoalesceOrRedistribute ::
  "nat \<Rightarrow> page_id_t \<Rightarrow> Transaction option \<Rightarrow> ('k, 'v) BPlusTree
     \<Rightarrow> (bool \<times> Transaction option \<times> ('k, 'v) BPlusTree) result" where
  "CoalesceOrRedistribute 0 = (\<lambda>node transaction t. Failure OutOfFuel)"
| "CoalesceOrRedistribute (Suc fuel) =
     (\<lambda>node transaction t0.
        let t = t0\<lparr>CoalesceOrRedistribute_calls := CoalesceOrRedistribute_calls t0 @ [node]\<rparr> in
        case deref t node of
          Failure f \<Rightarrow> Failure f
        | Ok nodePage \<Rightarrow>
       (case Page_GetParentPageId nodePage of
          Failure f \<Rightarrow> Failure f
        | Ok parentId \<Rightarrow>
            if parentId = INVALID_PAGE_ID
            then
              (case AdjustRoot node t of
                 Failure f \<Rightarrow> Failure f
               | Ok (delOldRoot, t1) \<Rightarrow>
                   if delOldRoot
                   then
                     (case deref t1 node of
                        Failure f \<Rightarrow> Failure f
                      | Ok nodePage1 \<Rightarrow>
                     (case Page_GetPageId nodePage1 of
                        Failure f \<Rightarrow> Failure f
                      | Ok nodeId \<Rightarrow>
                     (case AddIntoDeletedPageSet transaction nodeId of
                        Failure f \<Rightarrow> Failure f
                      | Ok transaction1 \<Rightarrow> Ok (delOldRoot, transaction1, t1))))
                   else Ok (delOldRoot, transaction, t1))
            else
              (case FindLeftSibling node transaction t of
                 Failure f \<Rightarrow> Failure f
               | Ok ((isRightSib, node2), transaction1, t1) \<Rightarrow>
              (case Tree_FetchPage t1 parentId of
                 Failure f \<Rightarrow> Failure f
               | Ok (INTERNAL_PAGE parentPage, t2) \<Rightarrow>
              (case deref t2 node of
                 Failure f \<Rightarrow> Failure f
               | Ok nodePage2 \<Rightarrow>
              (case deref t2 node2 of
                 Failure f \<Rightarrow> Failure f
               | Ok node2Page \<Rightarrow>
              (case Page_GetSize nodePage2 of
                 Failure f \<Rightarrow> Failure f
               | Ok nodeSize \<Rightarrow>
              (case Page_GetSize node2Page of
                 Failure f \<Rightarrow> Failure f
               | Ok node2Size \<Rightarrow>
              (case Page_GetMaxSize nodePage2 of
                 Failure f \<Rightarrow> Failure f
               | Ok nodeMaxSize \<Rightarrow>
              (case Page_GetPageId nodePage2 of
                 Failure f \<Rightarrow> Failure f
               | Ok nodeId \<Rightarrow>
              (case Page_GetPageId node2Page of
                 Failure f \<Rightarrow> Failure f
               | Ok node2Id \<Rightarrow>
                   if nodeSize + node2Size \<le> nodeMaxSize
                   then
                     (let (later, earlier, laterId) =
                            (if isRightSib then (node2, node, node2Id) else (node, node2, nodeId));
                          removeIndex = ValueIndex parentPage laterId
                      in case Coalesce (CoalesceOrRedistribute fuel) earlier later parentId
                                removeIndex transaction1 t2 of
                           Failure f \<Rightarrow> Failure f
                         | Ok (parentDeleted, transaction2, t3) \<Rightarrow>
                             (case internal_of t3 parentId of
                                Failure f \<Rightarrow> Failure f
                              | Ok parentPage1 \<Rightarrow>
                                  Ok (True, transaction2, unpin t3 (page_id_' parentPage1) True)))
                   else
                     (let nodeInParentIndex = ValueIndex parentPage nodeId in
                      case Redistribute node2 node nodeInParentIndex t2 of
                        Failure f \<Rightarrow> Failure f
                      | Ok t3 \<Rightarrow>
                          (case internal_of t3 parentId of
                             Failure f \<Rightarrow> Failure f
                           | Ok parentPage1 \<Rightarrow>
                               Ok (False, transaction1, unpin t3 (page_id_' parentPage1) False))))))))))
               | Ok (other, t2) \<Rightarrow> Failure WrongPageType))))"

definition Remove ::
  "nat \<Rightarrow> ('k \<Rightarrow> 'k \<Rightarrow> int) \<Rightarrow> 'k \<Rightarrow> Transaction option \<Rightarrow> ('k, 'v) BPlusTree
     \<Rightarrow> (Transaction option \<times> ('k, 'v) BPlusTree) result" where
  "Remove fuel comparator key transaction t =
     (if IsEmpty t then Ok (transaction, t)
      else
        (case FindLeafPage fuel comparator key False OpType_DELETE transaction t of
           Failure f \<Rightarrow> Failure f
         | Ok (None, transaction1, t1) \<Rightarrow> Failure NullPointer
         | Ok (Some delTar, transaction1, t1) \<Rightarrow>
        (case leaf_at t1 delTar of
           Failure f \<Rightarrow> Failure f
         | Ok p \<Rightarrow>
        (case RemoveAndDeleteRecord p key comparator of
           Failure f \<Rightarrow> Failure f
         | Ok p1 \<Rightarrow>
        (let t2 = set_page t1 delTar (LEAF_PAGE p1);
             curSize = GetSize p1
         in case (if curSize < GetMinSize True p1
                  then (case CoalesceOrRedistribute fuel delTar transaction1 t2 of
                          Failure f \<Rightarrow> Failure f
                        | Ok (deleted, transaction2, t3) \<Rightarrow> Ok (transaction2, t3))
                  else Ok (transaction1, t2)) of
              Failure f \<Rightarrow> Failure f
            | Ok (transaction3, t4) \<Rightarrow> FreePagesInTransaction True transaction3 (- 1) t4)))))"

text \<open>
  A tree with two leaves for the examples (leaf and internal pages of maximal size 3):
  the root, page 3, has the leaves 1 with the keys 1 and 5 and 2 with the keys 7 and 9.
  \<open>example_tree_in_Coalesce\<close> is the same tree at the moment \<^verbatim>\<open>Remove\<close> of the
  key 1 calls \<^verbatim>\<open>Coalesce\<close>: the key has left page 1, the three pages are in the
  page set of the transaction, and the parent is pinned once more.
\<close>

definition example_tree :: "(int, RID) BPlusTree" where
  "example_tree =
     \<lparr>index_name_' = ''index'', root_page_id_' = 3,
      buffer_pool_manager_' =
        \<lparr>pages = [0 \<mapsto> HEADER_PAGE [(''index'', 3)],
                  1 \<mapsto> LEAF_PAGE \<lparr>page_id_' = 1, parent_page_id_' = 3, next_page_id_' = 2,
                                   max_size_' = 3, array = [(1, (1, 0)), (5, (5, 0))]\<rparr>,
                  2 \<mapsto> LEAF_PAGE \<lparr>page_id_' = 2, parent_page_id_' = 3, next_page_id_' = - 1,
                                   max_size_' = 3, array = [(7, (7, 0)), (9, (9, 0))]\<rparr>,
                  3 \<mapsto> INTERNAL_PAGE \<lparr>page_id_' = 3, parent_page_id_' = - 1,
                                       next_page_id_' = - 1, max_size_' = 3,
                                       array = [(5, 1), (7, 2)]\<rparr>],
         pin_count = (\<lambda>p. 0), is_dirty = (\<lambda>p. False), next_new_page_id = 4\<rparr>,
      leaf_max_size = 3, internal_max_size = 3, CoalesceOrRedistribute_calls = []\<rparr>"

text \<open>The same tree with a full first leaf: the next key inserted there splits it.\<close>

definition example_tree_full_leaf :: "(int, RID) BPlusTree" where
  "example_tree_full_leaf =
     set_page example_tree 1
       (LEAF_PAGE \<lparr>page_id_' = 1, parent_page_id_' = 3, next_page_id_' = 2, max_size_' = 3,
                   array = [(1, (1, 0)), (4, (4, 0)), (5, (5, 0))]\<rparr>)"

definition example_tree_in_Coalesce :: "(int, RID) BPlusTree" where
  "example_tree_in_Coalesce =
     \<lparr>index_name_' = ''index'', root_page_id_' = 3,
      buffer_pool_manager_' =
        \<lparr>pages = [0 \<mapsto> HEADER_PAGE [(''index'', 3)],
                  1 \<mapsto> LEAF_PAGE \<lparr>page_id_' = 1, parent_page_id_' = 3, next_page_id_' = 2,
                                   max_size_' = 3, array = [(5, (5, 0))]\<rparr>,
                  2 \<mapsto> LEAF_PAGE \<lparr>page_id_' = 2, parent_page_id_' = 3, next_page_id_' = - 1,
                                   max_size_' = 3, array = [(7, (7, 0)), (9, (9, 0))]\<rparr>,
                  3 \<mapsto> INTERNAL_PAGE \<lparr>page_id_' = 3, parent_page_id_' = - 1,
                                       next_page_id_' = - 1, max_size_' = 3,
                                       array = [(5, 1), (7, 2)]\<rparr>],
         pin_count = (\<lambda>p. if p = 3 then 2 else if p = 1 \<or> p = 2 then 1 else 0),
         is_dirty = (\<lambda>p. False), next_new_page_id = 4\<rparr>,
      leaf_max_size = 3, internal_max_size = 3, CoalesceOrRedistribute_calls = [1]\<rparr>"

definition example_txn_in_Coalesce :: Transaction where
  "example_txn_in_Coalesce = (new_Transaction 0)\<lparr>page_set_' := [3, 1, 2]\<rparr>"

text \<open>The value of a result that is not a failure.\<close>

fun the_Ok :: "'a result \<Rightarrow> 'a" where
  "the_Ok (Ok x) = x"

fun is_Ok :: "'a result \<Rightarrow> bool" where
  "is_Ok (Ok x) = True"
| "is_Ok (Failure f) = False"

subsection \<open>Pins, and a scan through the iterator\<close>

text \<open>
  \<open>pins t\<close> is the number of pins on each page. \<open>held transaction\<close> counts,
  for each page, its entries in the page set of the transaction: the pins the
  transaction will release. \<open>page_ids_consistent\<close>: the page id in the header of
  every leaf and internal page is the id of the page. \<open>internal_ids_positive\<close>:
  internal pages have positive ids (page 0 is the header page).
\<close>

definition pins :: "('k, 'v) BPlusTree \<Rightarrow> page_id_t \<Rightarrow> int" where
  "pins t = pin_count (buffer_pool_manager_' t)"

definition held :: "Transaction option \<Rightarrow> page_id_t \<Rightarrow> int" where
  "held transaction page_id =
     (case transaction of
        None \<Rightarrow> 0
      | Some txn \<Rightarrow> int (count_list (page_set_' txn) page_id))"

definition page_id_ok :: "page_id_t \<Rightarrow> ('k, 'v) Page \<Rightarrow> bool" where
  "page_id_ok page_id page =
     (case page of
        LEAF_PAGE p \<Rightarrow> page_id_' p = page_id
      | INTERNAL_PAGE p \<Rightarrow> page_id_' p = page_id
      | other \<Rightarrow> True)"

definition page_ids_consistent :: "('k, 'v) BPlusTree \<Rightarrow> bool" where
  "page_ids_consistent t = (\<forall>page_id page. page_at t page_id = Some page \<longrightarrow> page_id_ok page_id page)"

definition internal_ids_positive :: "('k, 'v) BPlusTree \<Rightarrow> bool" where
  "internal_ids_positive t =
     (\<forall>page_id p. page_at t page_id = Some (INTERNAL_PAGE p) \<longrightarrow> 0 < page_id)"

text \<open>
  The loop of a client that advances an iterator until \<^verbatim>\<open>isEnd()\<close>, and the
  full scan from \<^verbatim>\<open>Begin()\<close> or from \<^verbatim>\<open>Begin(key)\<close>; \<open>steps\<close> bounds
  the number of advances.
\<close>

fun advance_to_end :: "nat \<Rightarrow> IndexIterator \<Rightarrow> ('k, 'v) BPlusTree \<Rightarrow> ('k, 'v) BPlusTree result" where
  "advance_to_end 0 it t = (if isEnd it then Ok t else Failure OutOfFuel)"
| "advance_to_end (Suc steps) it t =
     (if isEnd it then Ok t
      else (case Iterator_next it t of
              Failure f \<Rightarrow> Failure f
            | Ok (it1, t1) \<Rightarrow> advance_to_end steps it1 t1))"

definition scan_from_Begin ::
  "nat \<Rightarrow> nat \<Rightarrow> ('k \<Rightarrow> 'k \<Rightarrow> int) \<Rightarrow> 'k \<Rightarrow> ('k, 'v) BPlusTree \<Rightarrow> ('k, 'v) BPlusTree result" where
  "scan_from_Begin fuel steps comparator useless t =
     (case Begin fuel comparator useless t of
        Failure f \<Rightarrow> Failure f
      | Ok (it, t1) \<Rightarrow> advance_to_end steps it t1)"

definition scan_from_Begin_key ::
  "nat \<Rightarrow> nat \<Rightarrow> ('k \<Rightarrow> 'k \<Rightarrow> int) \<Rightarrow> 'k \<Rightarrow> ('k, 'v) BPlusTree \<Rightarrow> ('k, 'v) BPlusTree result" where
  "scan_from_Begin_key fuel steps comparator key t =
     (case Begin_key fuel comparator key t of
        Failure f \<Rightarrow> Failure f
      | Ok (it, t1) \<Rightarrow> advance_to_end steps it t1)"

section \<open>Properties of the leaf page\<close>

lemma KeyIndex_loop_inv:
  fixes arr :: "('k \<times> 'v) list"
  assumes mono: "\<And>i j. i \<le> j \<Longrightarrow> j < length arr \<Longrightarrow>
                   0 \<le> comparator (fst (arr ! i)) key \<Longrightarrow> 0 \<le> comparator (fst (arr ! j)) key"
    and "0 \<le> st" and "ed < int (length arr)" and "st \<le> ed + 1"
    and "\<And>i. int i < st \<Longrightarrow> comparator (fst (arr ! i)) key < 0"
    and "\<And>i. ed < int i \<Longrightarrow> i < length arr \<Longrightarrow> 0 \<le> comparator (fst (arr ! i)) key"
  shows "\<exists>r. KeyIndex_loop comparator arr key st ed = Some (int r) \<and> r \<le> length arr
             \<and> (\<forall>i<r. comparator (fst (arr ! i)) key < 0)
             \<and> (\<forall>i. r \<le> i \<and> i < length arr \<longrightarrow> 0 \<le> comparator (fst (arr ! i)) key)"
  using assms
proof (induction comparator arr key st ed rule: KeyIndex_loop.induct)
  case (1 comparator arr key st ed)
  show ?case
  proof (cases "st \<le> ed")
    case False
    with "1.prems"(4) have e: "ed + 1 = st" by linarith
    define r where "r = nat st"
    have r: "int r = st" using "1.prems"(2) by (simp add: r_def)
    have "KeyIndex_loop comparator arr key st ed = Some (int r)"
      using False e r by (simp add: KeyIndex_loop.simps)
    moreover have "r \<le> length arr" using "1.prems"(3) e r by linarith
    moreover have "\<forall>i<r. comparator (fst (arr ! i)) key < 0"
      using "1.prems"(5) r by auto
    moreover have "\<forall>i. r \<le> i \<and> i < length arr \<longrightarrow> 0 \<le> comparator (fst (arr ! i)) key"
      using "1.prems"(6) e r by auto
    ultimately show ?thesis by blast
  next
    case True
    define mid where "mid = (ed - st) div 2 + st"
    have mid: "st \<le> mid" "mid \<le> ed" using True by (auto simp: mid_def)
    have inr: "\<not> (mid < 0 \<or> int (length arr) \<le> mid)" using mid "1.prems"(2,3) by linarith
    show ?thesis
    proof (cases "0 \<le> comparator (fst (arr ! nat mid)) key")
      case ge: True
      have eq: "KeyIndex_loop comparator arr key st ed = KeyIndex_loop comparator arr key st (mid - 1)"
        using True inr ge by (subst KeyIndex_loop.simps) (simp add: mid_def Let_def)
      have "\<exists>r. KeyIndex_loop comparator arr key st (mid - 1) = Some (int r) \<and> r \<le> length arr
             \<and> (\<forall>i<r. comparator (fst (arr ! i)) key < 0)
             \<and> (\<forall>i. r \<le> i \<and> i < length arr \<longrightarrow> 0 \<le> comparator (fst (arr ! i)) key)"
      proof (rule "1.IH"(1)[OF True mid_def])
        show "\<not> (mid < 0 \<or> int (length arr) \<le> mid)" by (rule inr)
        show "0 \<le> comparator (fst (arr ! nat mid)) key" by (rule ge)
        show "0 \<le> st" by (rule "1.prems"(2))
        show "mid - 1 < int (length arr)" using inr by linarith
        show "st \<le> mid - 1 + 1" using mid by simp
        show "\<And>i. int i < st \<Longrightarrow> comparator (fst (arr ! i)) key < 0" by (rule "1.prems"(5))
        show "\<And>i. mid - 1 < int i \<Longrightarrow> i < length arr \<Longrightarrow> 0 \<le> comparator (fst (arr ! i)) key"
        proof -
          fix i assume a: "mid - 1 < int i" "i < length arr"
          have "nat mid \<le> i" using a by linarith
          from "1.prems"(1)[OF this a(2) ge] show "0 \<le> comparator (fst (arr ! i)) key" .
        qed
        show "\<And>i j. i \<le> j \<Longrightarrow> j < length arr \<Longrightarrow>
                   0 \<le> comparator (fst (arr ! i)) key \<Longrightarrow> 0 \<le> comparator (fst (arr ! j)) key"
          by (rule "1.prems"(1))
      qed
      with eq show ?thesis by simp
    next
      case lt: False
      have eq: "KeyIndex_loop comparator arr key st ed = KeyIndex_loop comparator arr key (mid + 1) ed"
        using True inr lt by (subst KeyIndex_loop.simps) (simp add: mid_def Let_def)
      have "\<exists>r. KeyIndex_loop comparator arr key (mid + 1) ed = Some (int r) \<and> r \<le> length arr
             \<and> (\<forall>i<r. comparator (fst (arr ! i)) key < 0)
             \<and> (\<forall>i. r \<le> i \<and> i < length arr \<longrightarrow> 0 \<le> comparator (fst (arr ! i)) key)"
      proof (rule "1.IH"(2)[OF True mid_def])
        show "\<not> (mid < 0 \<or> int (length arr) \<le> mid)" by (rule inr)
        show "\<not> 0 \<le> comparator (fst (arr ! nat mid)) key" by (rule lt)
        show "0 \<le> mid + 1" using mid "1.prems"(2) by linarith
        show "ed < int (length arr)" by (rule "1.prems"(3))
        show "mid + 1 \<le> ed + 1" using mid by simp
        show "\<And>i. ed < int i \<Longrightarrow> i < length arr \<Longrightarrow> 0 \<le> comparator (fst (arr ! i)) key"
          by (rule "1.prems"(6))
        show "\<And>i. int i < mid + 1 \<Longrightarrow> comparator (fst (arr ! i)) key < 0"
        proof -
          fix i assume a: "int i < mid + 1"
          have le: "i \<le> nat mid" using a by linarith
          have "nat mid < length arr" using inr by linarith
          show "comparator (fst (arr ! i)) key < 0"
          proof (rule ccontr)
            assume "\<not> comparator (fst (arr ! i)) key < 0"
            then have "0 \<le> comparator (fst (arr ! i)) key" by simp
            from "1.prems"(1)[OF le \<open>nat mid < length arr\<close> this] lt show False by simp
          qed
        qed
        show "\<And>i j. i \<le> j \<Longrightarrow> j < length arr \<Longrightarrow>
                   0 \<le> comparator (fst (arr ! i)) key \<Longrightarrow> 0 \<le> comparator (fst (arr ! j)) key"
          by (rule "1.prems"(1))
      qed
      with eq show ?thesis by simp
    qed
  qed
qed

lemma KeyIndex_char:
  fixes p :: "('k, 'v) BPlusTreeLeafPage"
  assumes tr: "comparator_transitive comparator"
    and asc: "keys_strictly_ascending comparator (array p)"
  shows "\<exists>r. KeyIndex p key comparator = Some (int r) \<and> r \<le> length (array p)
             \<and> (\<forall>i<r. comparator (fst (array p ! i)) key < 0)
             \<and> (\<forall>i. r \<le> i \<and> i < length (array p) \<longrightarrow> 0 \<le> comparator (fst (array p ! i)) key)"
  unfolding KeyIndex_def GetSize_def
proof (rule KeyIndex_loop_inv)
  fix i j
  assume ij: "i \<le> j" and j: "j < length (array p)"
    and ge: "0 \<le> comparator (fst (array p ! i)) key"
  show "0 \<le> comparator (fst (array p ! j)) key"
  proof (cases "i = j")
    case True
    with ge show ?thesis by simp
  next
    case False
    with ij have "i < j" by simp
    with asc j have lt: "comparator (fst (array p ! i)) (fst (array p ! j)) < 0"
      by (simp add: keys_strictly_ascending_def sorted_wrt_iff_nth_less)
    show ?thesis
    proof (rule ccontr)
      assume "\<not> 0 \<le> comparator (fst (array p ! j)) key"
      then have "comparator (fst (array p ! j)) key < 0" by simp
      with tr lt have "comparator (fst (array p ! i)) key < 0"
        unfolding comparator_transitive_def by blast
      with ge show False by simp
    qed
  qed
qed simp_all

lemma IntComparator_transitive: "comparator_transitive IntComparator"
  by (auto simp: comparator_transitive_def IntComparator_def split: if_splits)

text \<open>
  C7. On a leaf page whose keys are strictly ascending under the comparator,
  \<^verbatim>\<open>KeyIndex(key)\<close> never reads outside the valid slots and returns the smallest
  index \<open>i\<close> with \<open>array[i].first \<ge> key\<close> (the comparator's result is not
  negative); when no slot has such a key it returns the page's size.
\<close>

theorem KeyIndex_first_ge:
  fixes p :: "('k, 'v) BPlusTreeLeafPage"
  assumes "comparator_transitive comparator"
    and "keys_strictly_ascending comparator (array p)"
  shows "KeyIndex p key comparator =
           Some (if \<exists>i<length (array p). 0 \<le> comparator (fst (array p ! i)) key
                 then int (LEAST i. i < length (array p) \<and> 0 \<le> comparator (fst (array p ! i)) key)
                 else GetSize p)"
proof -
  from KeyIndex_char[OF assms, of key] obtain r where
    r: "KeyIndex p key comparator = Some (int r)" "r \<le> length (array p)"
       "\<forall>i<r. comparator (fst (array p ! i)) key < 0"
       "\<forall>i. r \<le> i \<and> i < length (array p) \<longrightarrow> 0 \<le> comparator (fst (array p ! i)) key"
    by blast
  show ?thesis
  proof (cases "\<exists>i<length (array p). 0 \<le> comparator (fst (array p ! i)) key")
    case True
    then obtain i where i: "i < length (array p)" "0 \<le> comparator (fst (array p ! i)) key"
      by blast
    have "r \<le> i" using r(3) i(2) by (meson not_le_imp_less not_less)
    then have rl: "r < length (array p)" using i(1) by simp
    have "(LEAST i. i < length (array p) \<and> 0 \<le> comparator (fst (array p ! i)) key) = r"
    proof (rule Least_equality)
      show "r < length (array p) \<and> 0 \<le> comparator (fst (array p ! r)) key"
        using rl r(4) by simp
    next
      fix y assume "y < length (array p) \<and> 0 \<le> comparator (fst (array p ! y)) key"
      then show "r \<le> y" using r(3) by (meson not_le_imp_less not_less)
    qed
    with True r(1) show ?thesis by simp
  next
    case False
    have "r = length (array p)"
    proof (rule ccontr)
      assume "r \<noteq> length (array p)"
      with r(2) have "r < length (array p)" by simp
      with r(4) False show False by blast
    qed
    with r(1) have "KeyIndex p key comparator = Some (GetSize p)" by (simp add: GetSize_def)
    with False show ?thesis by auto
  qed
qed

theorem KeyIndex_first_ge_witness:
  "comparator_transitive IntComparator
   \<and> keys_strictly_ascending IntComparator (array example_leaf)
   \<and> KeyIndex example_leaf 4 IntComparator = Some 2
   \<and> KeyIndex example_leaf 4 IntComparator =
       Some (if \<exists>i<length (array example_leaf).
                   0 \<le> IntComparator (fst (array example_leaf ! i)) 4
             then int (LEAST i. i < length (array example_leaf)
                          \<and> 0 \<le> IntComparator (fst (array example_leaf ! i)) 4)
             else GetSize example_leaf)"
proof -
  have asc: "keys_strictly_ascending IntComparator (array example_leaf)"
    by (simp add: keys_strictly_ascending_def IntComparator_def example_leaf_def)
  have val: "KeyIndex example_leaf 4 IntComparator = Some 2"
    by (simp add: KeyIndex_def GetSize_def IntComparator_def Let_def example_leaf_def)
  from KeyIndex_first_ge[OF IntComparator_transitive asc, of 4] IntComparator_transitive asc val
  show ?thesis by blast
qed

section \<open>Properties of the lock manager\<close>

text \<open>
  C1. When \<^verbatim>\<open>Unlock\<close> removes a granted entry and the queue stays non-empty, an
  EXCLUSIVE waiter should be granted only at the head of the queue, alone. The grant
  loop calls \<^verbatim>\<open>Grant()\<close> before it looks at the mode, so an EXCLUSIVE waiter that
  follows ungranted SHARED waiters is granted together with them. Transaction 4 holds
  the exclusive lock; 3 and 2 queue for SHARED and 1 for EXCLUSIVE, all older than the
  queue's tail and therefore waiting; when 4 unlocks, the three of them are granted.
\<close>

theorem Unlock_grants_exclusive_behind_shared:
  "(case LockExclusive (new_LockManager False) (new_Transaction 4) (1, 0) of (o1, lm1, t4) \<Rightarrow>
    case LockShared lm1 (new_Transaction 3) (1, 0) of (o2, lm2, t3) \<Rightarrow>
    case LockShared lm2 (new_Transaction 2) (1, 0) of (o3, lm3, t2) \<Rightarrow>
    case LockExclusive lm3 (new_Transaction 1) (1, 0) of (o4, lm4, t1) \<Rightarrow>
    case Unlock lm4 t4 (1, 0) of (o5, lm5, t4a) \<Rightarrow>
      o1 = Returns True \<and> o2 = Blocks \<and> o3 = Blocks \<and> o4 = Blocks \<and> o5 = Returns True
      \<and> lockTable_' lm4 (1, 0) =
          Some \<lparr>locks_' = [\<lparr>tid_' = 4, mode_' = EXCLUSIVE, granted_' = True\<rparr>,
                           \<lparr>tid_' = 3, mode_' = SHARED, granted_' = False\<rparr>,
                           \<lparr>tid_' = 2, mode_' = SHARED, granted_' = False\<rparr>,
                           \<lparr>tid_' = 1, mode_' = EXCLUSIVE, granted_' = False\<rparr>],
                hasUpgrading_' = False\<rparr>
      \<and> lockTable_' lm5 (1, 0) =
          Some \<lparr>locks_' = [\<lparr>tid_' = 3, mode_' = SHARED, granted_' = True\<rparr>,
                           \<lparr>tid_' = 2, mode_' = SHARED, granted_' = True\<rparr>,
                           \<lparr>tid_' = 1, mode_' = EXCLUSIVE, granted_' = True\<rparr>],
                hasUpgrading_' = False\<rparr>)"
  by (simp add: LockExclusive_def LockShared_def lockTemplate_def lockTemplate_step3_def
      Unlock_def new_LockManager_def new_Transaction_def lockTable_at_def set_TxList_def
      table_put_def table_erase_def empty_TxList_def checkCanGrant_def TxList_insert_def
      insert_after_wait_def uset_insert_def uset_erase_def Let_def)

text \<open>
  C2. Wait-die: a transaction must never be blocked while an older one (smaller id)
  holds or waits in the same queue. \<^verbatim>\<open>lockTemplate\<close> compares the requester with
  the queue's last entry only. Transactions 1 and 5 share the lock; transaction 3 asks
  for the exclusive lock: the tail is 5, not older than 3, so 3 is queued and blocks,
  behind the granted request of the older transaction 1.
\<close>

theorem lockTemplate_younger_waits_on_older:
  "(case LockShared (new_LockManager False) (new_Transaction 1) (1, 0) of (o1, lm1, t1) \<Rightarrow>
    case LockShared lm1 (new_Transaction 5) (1, 0) of (o2, lm2, t5) \<Rightarrow>
    case LockExclusive lm2 (new_Transaction 3) (1, 0) of (o3, lm3, t3) \<Rightarrow>
      o1 = Returns True \<and> o2 = Returns True \<and> o3 = Blocks \<and> state_' t3 = GROWING
      \<and> lockTable_' lm3 (1, 0) =
          Some \<lparr>locks_' = [\<lparr>tid_' = 1, mode_' = SHARED, granted_' = True\<rparr>,
                           \<lparr>tid_' = 5, mode_' = SHARED, granted_' = True\<rparr>,
                           \<lparr>tid_' = 3, mode_' = EXCLUSIVE, granted_' = False\<rparr>],
                hasUpgrading_' = False\<rparr>
      \<and> younger_waits_on_older (locks_' (the (lockTable_' lm3 (1, 0)))))"
  by (simp add: LockExclusive_def LockShared_def lockTemplate_def lockTemplate_step3_def
      new_LockManager_def new_Transaction_def lockTable_at_def set_TxList_def
      table_put_def empty_TxList_def checkCanGrant_def TxList_insert_def
      insert_after_wait_def uset_insert_def Let_def)

text \<open>
  C9, as stated: without an entry of the transaction in the RID's queue, \<^verbatim>\<open>Unlock\<close>
  fails an assertion and does not return false. Under strict 2PL a transaction that is
  still GROWING gets \<open>false\<close> from the state check, before the lock table is
  looked at: no assertion fails and no queue is inserted.
\<close>

theorem Unlock_strict_2PL_returns_false:
  "lockTable_' (new_LockManager True) (1, 0) = None
   \<and> Unlock (new_LockManager True) (new_Transaction 1) (1, 0) =
       (Returns False, new_LockManager True, (new_Transaction 1)\<lparr>state_' := ABORTED\<rparr>)"
  by (simp add: Unlock_def new_LockManager_def new_Transaction_def)

text \<open>
  C9, amended. When \<^verbatim>\<open>Unlock\<close> passes its state check (strict 2PL is off, or the
  transaction is COMMITTED or ABORTED) and the transaction has no entry in the RID's
  queue, \<^verbatim>\<open>Unlock\<close> fails the assertion; for a RID without a queue the lock table
  then holds a fresh empty queue for it, and every other RID's queue is as before.
  Under strict 2PL, for every transaction that is neither COMMITTED nor ABORTED,
  every lock table and every RID, \<^verbatim>\<open>Unlock\<close> returns false, the transaction is
  ABORTED and otherwise unchanged, and the lock manager is as before: the lock table
  is not touched.
\<close>

theorem Unlock_without_entry_asserts:
  "((strict_2PL_' lm \<longrightarrow> state_' txn = COMMITTED \<or> state_' txn = ABORTED) \<longrightarrow>
    (\<forall>txList. lockTable_' lm rid = Some txList \<longrightarrow>
       find (\<lambda>item. tid_' item = txn_id_' txn) (locks_' txList) = None) \<longrightarrow>
      fst (Unlock lm txn rid) = AssertionFails
      \<and> (lockTable_' lm rid = None \<longrightarrow>
           lockTable_' (fst (snd (Unlock lm txn rid))) rid = Some empty_TxList)
      \<and> (\<forall>r. r \<noteq> rid \<longrightarrow> lockTable_' (fst (snd (Unlock lm txn rid))) r = lockTable_' lm r))
   \<and> (strict_2PL_' lm \<longrightarrow> state_' txn \<noteq> COMMITTED \<longrightarrow> state_' txn \<noteq> ABORTED \<longrightarrow>
        Unlock lm txn rid = (Returns False, lm, txn\<lparr>state_' := ABORTED\<rparr>))"
proof (intro conjI impI)
  assume guard: "strict_2PL_' lm \<longrightarrow> state_' txn = COMMITTED \<or> state_' txn = ABORTED"
    and none: "\<forall>txList. lockTable_' lm rid = Some txList \<longrightarrow>
                 find (\<lambda>item. tid_' item = txn_id_' txn) (locks_' txList) = None"
  have all: "fst (Unlock lm txn rid) = AssertionFails
      \<and> (lockTable_' lm rid = None \<longrightarrow>
           lockTable_' (fst (snd (Unlock lm txn rid))) rid = Some empty_TxList)
      \<and> (\<forall>r. r \<noteq> rid \<longrightarrow> lockTable_' (fst (snd (Unlock lm txn rid))) r = lockTable_' lm r)"
  proof (cases "lockTable_' lm rid")
    case None
    with guard show ?thesis
      by (auto simp: Unlock_def lockTable_at_def table_put_def empty_TxList_def Let_def)
  next
    case (Some txList)
    with none have "find (\<lambda>item. tid_' item = txn_id_' txn) (locks_' txList) = None"
      by simp
    with Some guard show ?thesis
      by (auto simp: Unlock_def lockTable_at_def Let_def)
  qed
  from all show "fst (Unlock lm txn rid) = AssertionFails" by simp
  from all show "\<forall>r. r \<noteq> rid \<longrightarrow>
                   lockTable_' (fst (snd (Unlock lm txn rid))) r = lockTable_' lm r" by simp
  assume "lockTable_' lm rid = None"
  with all show "lockTable_' (fst (snd (Unlock lm txn rid))) rid = Some empty_TxList" by simp
next
  assume "strict_2PL_' lm" "state_' txn \<noteq> COMMITTED" "state_' txn \<noteq> ABORTED"
  then show "Unlock lm txn rid = (Returns False, lm, txn\<lparr>state_' := ABORTED\<rparr>)"
    by (simp add: Unlock_def)
qed

theorem Unlock_without_entry_asserts_witness:
  "\<not> strict_2PL_' (new_LockManager False)
   \<and> lockTable_' (new_LockManager False) (1, 0) = None
   \<and> fst (Unlock (new_LockManager False) (new_Transaction 1) (1, 0)) = AssertionFails
   \<and> lockTable_' (fst (snd (Unlock (new_LockManager False) (new_Transaction 1) (1, 0)))) (1, 0)
       = Some empty_TxList
   \<and> strict_2PL_' (new_LockManager True)
   \<and> state_' (new_Transaction 2) = GROWING
   \<and> Unlock (new_LockManager True) (new_Transaction 2) (3, 0) =
       (Returns False, new_LockManager True, (new_Transaction 2)\<lparr>state_' := ABORTED\<rparr>)"
proof -
  have h1: "strict_2PL_' (new_LockManager False) \<longrightarrow>
      state_' (new_Transaction 1) = COMMITTED \<or> state_' (new_Transaction 1) = ABORTED"
    by (simp add: new_LockManager_def)
  have h0: "lockTable_' (new_LockManager False) (1, 0) = None"
    by (simp add: new_LockManager_def)
  then have h2: "\<forall>txList. lockTable_' (new_LockManager False) (1, 0) = Some txList \<longrightarrow>
           find (\<lambda>item. tid_' item = txn_id_' (new_Transaction 1)) (locks_' txList) = None"
    by simp
  have h3: "\<not> strict_2PL_' (new_LockManager False)"
    by (simp add: new_LockManager_def)
  have g1: "strict_2PL_' (new_LockManager True)" by (simp add: new_LockManager_def)
  have g2: "state_' (new_Transaction 2) = GROWING" by (simp add: new_Transaction_def)
  from Unlock_without_entry_asserts[of "new_LockManager False" "new_Transaction 1" "(1, 0)"]
    h1 h2 h0
  have a: "fst (Unlock (new_LockManager False) (new_Transaction 1) (1, 0)) = AssertionFails"
    "lockTable_' (fst (snd (Unlock (new_LockManager False) (new_Transaction 1) (1, 0)))) (1, 0)
       = Some empty_TxList"
    by blast+
  from Unlock_without_entry_asserts[of "new_LockManager True" "new_Transaction 2" "(3, 0)"]
    g1 g2
  have b: "Unlock (new_LockManager True) (new_Transaction 2) (3, 0) =
       (Returns False, new_LockManager True, (new_Transaction 2)\<lparr>state_' := ABORTED\<rparr>)"
    by simp
  from a b h3 h0 g1 g2 show ?thesis by simp
qed

section \<open>Properties of the transaction manager\<close>

lemma Commit_release_calls:
  "Commit_release rids tm txn = (oc, tm1, txn1) \<Longrightarrow>
     heap tm1 = heap tm \<and> next_lsn_' tm1 = next_lsn_' tm
     \<and> (\<exists>n\<le>length rids. calls tm1 = calls tm @ map Call_Unlock (take n rids)
            \<and> (oc = Returns () \<longrightarrow> n = length rids))"
proof (induction rids arbitrary: tm txn)
  case Nil
  then show ?case by auto
next
  case (Cons r rids)
  obtain o2 lm2 txn2 where u: "Unlock (lock_manager_' tm) txn r = (o2, lm2, txn2)"
    by (cases "Unlock (lock_manager_' tm) txn r") auto
  define tm2 where "tm2 = tm\<lparr>lock_manager_' := lm2, calls := calls tm @ [Call_Unlock r]\<rparr>"
  show ?case
  proof (cases "o2 = AssertionFails")
    case True
    with Cons.prems(1) u have "oc = AssertionFails" "tm1 = tm2" "txn1 = txn2"
      by (auto simp: tm2_def Let_def)
    then have "calls tm1 = calls tm @ map Call_Unlock (take 1 (r # rids))" "heap tm1 = heap tm"
      "next_lsn_' tm1 = next_lsn_' tm"
      by (auto simp: tm2_def)
    with \<open>oc = AssertionFails\<close> show ?thesis
      by (intro conjI exI[of _ 1]) auto
  next
    case False
    with Cons.prems(1) u have r: "Commit_release rids tm2 txn2 = (oc, tm1, txn1)"
      by (auto simp: tm2_def Let_def)
    from Cons.IH[OF r] obtain n where n: "heap tm1 = heap tm2" "next_lsn_' tm1 = next_lsn_' tm2"
      "n \<le> length rids" "calls tm1 = calls tm2 @ map Call_Unlock (take n rids)"
      "oc = Returns () \<longrightarrow> n = length rids"
      by blast
    have "calls tm1 = calls tm @ map Call_Unlock (take (Suc n) (r # rids))"
      using n(4) by (simp add: tm2_def)
    with n show ?thesis
      by (intro conjI exI[of _ "Suc n"]) (auto simp: tm2_def)
  qed
qed

text \<open>
  What \<^verbatim>\<open>Commit\<close> does whatever \<^verbatim>\<open>ApplyDelete\<close> does: when the loop over the
  write set has returned with the transaction manager \<open>tmA\<close> and the transaction
  \<open>txnA\<close>, the calls that follow are, with logging, \<^verbatim>\<open>AppendLogRecord\<close> of the
  COMMIT record and \<^verbatim>\<open>Flush(false)\<close>, and then \<^verbatim>\<open>Unlock\<close> for the RIDs that
  are in the lock sets of \<open>txnA\<close>. So the \<^verbatim>\<open>Unlock\<close> calls of \<^verbatim>\<open>Commit\<close>'s
  own loop follow the flush; the locks that \<^verbatim>\<open>ApplyDelete\<close> has released are not
  among them.
\<close>

lemma Commit_calls:
  assumes run: "Commit TableHeap_ApplyDelete unordered_set_order tm txn = (oc, tm1, txn1)"
    and loop: "Commit_write_set TableHeap_ApplyDelete (rev (write_set_' txn)) tm
                 (txn\<lparr>state_' := COMMITTED\<rparr>) = (Returns (), tmA, txnA)"
  shows "\<exists>n\<le>length (Commit_lock_set unordered_set_order txnA).
           calls tm1 =
             calls tmA
             @ (if ENABLE_LOGGING tmA
                then [Call_AppendLogRecord (txn_id_' txnA) (prev_lsn_' txnA) LogRecordType_COMMIT,
                      Call_Flush False]
                else [])
             @ map Call_Unlock (take n (Commit_lock_set unordered_set_order txnA))
           \<and> (oc = Returns () \<longrightarrow> n = length (Commit_lock_set unordered_set_order txnA))"
proof -
  define txn3 where "txn3 = txnA\<lparr>write_set_' := []\<rparr>"
  define tmB where "tmB = (if ENABLE_LOGGING tmA
      then tmA\<lparr>next_lsn_' := next_lsn_' tmA + 1,
               calls := calls tmA
                 @ [Call_AppendLogRecord (txn_id_' txnA) (prev_lsn_' txnA) LogRecordType_COMMIT,
                    Call_Flush False]\<rparr>
      else tmA)"
  define txnB where "txnB = (if ENABLE_LOGGING tmA then txn3\<lparr>prev_lsn_' := next_lsn_' tmA\<rparr> else txn3)"
  have ls: "Commit_lock_set unordered_set_order txnB = Commit_lock_set unordered_set_order txnA"
    by (simp add: Commit_lock_set_def txnB_def txn3_def)
  have rel: "Commit_release (Commit_lock_set unordered_set_order txnA) tmB txnB = (oc, tm1, txn1)"
    using run loop ls
    by (auto simp: Commit_def Let_def tmB_def txnB_def txn3_def split: if_splits)
  have cB: "calls tmB = calls tmA
             @ (if ENABLE_LOGGING tmA
                then [Call_AppendLogRecord (txn_id_' txnA) (prev_lsn_' txnA) LogRecordType_COMMIT,
                      Call_Flush False]
                else [])"
    by (simp add: tmB_def)
  from Commit_release_calls[OF rel] cB show ?thesis by auto
qed


section \<open>Properties of the REDO pass\<close>

text \<open>
  C5. For an INSERT, UPDATE, MARKDELETE, APPLYDELETE or ROLLBACKDELETE record whose
  page (the page of the record's RID) exists, the REDO step returns and leaves the
  pages as follows: when the record's LSN is strictly greater than the page's LSN, the
  page is the result of the logged operation with its LSN set to the record's LSN;
  otherwise no page has changed.
\<close>

theorem Redo_record_replays_iff_newer:
  assumes "log_record_type_' log \<in> {LogRecordType_INSERT, LogRecordType_UPDATE,
             LogRecordType_MARKDELETE, LogRecordType_APPLYDELETE, LogRecordType_ROLLBACKDELETE}"
    and "pages (recovery_buffer_pool_manager_' lr) (fst (GetRID log)) = Some page"
  shows "fst (Redo_record ops pos log lr) = Returns ()
     \<and> pages (recovery_buffer_pool_manager_' (snd (Redo_record ops pos log lr))) =
         (if lsn_' log > page_lsn page
          then (pages (recovery_buffer_pool_manager_' lr))
                 (fst (GetRID log) \<mapsto>
                    (case log_record_type_' log of
                       LogRecordType_INSERT \<Rightarrow>
                         TablePage_InsertTuple ops (insert_tuple_' log) (insert_rid_' log) page
                     | LogRecordType_UPDATE \<Rightarrow>
                         TablePage_UpdateTuple ops (new_tuple_' log) (update_rid_' log) page
                     | LogRecordType_MARKDELETE \<Rightarrow> TablePage_MarkDelete ops (delete_rid_' log) page
                     | LogRecordType_APPLYDELETE \<Rightarrow> TablePage_ApplyDelete ops (delete_rid_' log) page
                     | LogRecordType_ROLLBACKDELETE \<Rightarrow>
                         TablePage_RollbackDelete ops (delete_rid_' log) page
                     | _ \<Rightarrow> page)
                    \<lparr>page_lsn := lsn_' log\<rparr>)
          else pages (recovery_buffer_pool_manager_' lr))"
proof -
  from assms(1) consider
      "log_record_type_' log = LogRecordType_INSERT"
    | "log_record_type_' log = LogRecordType_UPDATE"
    | "log_record_type_' log = LogRecordType_MARKDELETE"
    | "log_record_type_' log = LogRecordType_APPLYDELETE"
    | "log_record_type_' log = LogRecordType_ROLLBACKDELETE"
    by auto
  then show ?thesis
  proof cases
    case 1
    with assms(2) show ?thesis
      by (simp add: Redo_record_def Let_def FetchPage_def pin_def UnpinPage_def write_page_def
          replay_def GetRID_def)
  next
    case 2
    with assms(2) show ?thesis
      by (simp add: Redo_record_def Let_def FetchPage_def pin_def UnpinPage_def write_page_def
          replay_def GetRID_def)
  next
    case 3
    with assms(2) show ?thesis
      by (simp add: Redo_record_def Let_def FetchPage_def pin_def UnpinPage_def write_page_def
          replay_def GetRID_def)
  next
    case 4
    with assms(2) show ?thesis
      by (simp add: Redo_record_def Let_def FetchPage_def pin_def UnpinPage_def write_page_def
          replay_def GetRID_def)
  next
    case 5
    with assms(2) show ?thesis
      by (simp add: Redo_record_def Let_def FetchPage_def pin_def UnpinPage_def write_page_def
          replay_def GetRID_def)
  qed
qed

theorem Redo_record_replays_iff_newer_witness:
  "log_record_type_' (example_update_log 5) \<in> {LogRecordType_INSERT, LogRecordType_UPDATE,
       LogRecordType_MARKDELETE, LogRecordType_APPLYDELETE, LogRecordType_ROLLBACKDELETE}
   \<and> pages (recovery_buffer_pool_manager_' example_recovery) (fst (GetRID (example_update_log 5)))
       = Some example_table_page
   \<and> fst (Redo_record example_ops 0 (example_update_log 5) example_recovery) = Returns ()
   \<and> pages (recovery_buffer_pool_manager_' (snd (Redo_record example_ops 0 (example_update_log 5)
                                            example_recovery))) 3
       = Some (example_table_page\<lparr>page_lsn := 5, tuples := [((3, 0), ''B'', False)]\<rparr>)
   \<and> pages (recovery_buffer_pool_manager_' (snd (Redo_record example_ops 0 (example_update_log 4)
                                            example_recovery))) 3
       = Some example_table_page"
proof -
  have t: "\<And>lsn. log_record_type_' (example_update_log lsn) \<in> {LogRecordType_INSERT,
       LogRecordType_UPDATE, LogRecordType_MARKDELETE, LogRecordType_APPLYDELETE,
       LogRecordType_ROLLBACKDELETE}"
    by (simp add: example_update_log_def)
  have p: "\<And>lsn. pages (recovery_buffer_pool_manager_' example_recovery)
                 (fst (GetRID (example_update_log lsn))) = Some example_table_page"
    by (simp add: example_recovery_def GetRID_def example_update_log_def)
  have r: "fst (GetRID (example_update_log lsn)) = 3" for lsn
    by (simp add: GetRID_def example_update_log_def)
  have u5: "(case log_record_type_' (example_update_log 5) of
               LogRecordType_INSERT \<Rightarrow>
                 TablePage_InsertTuple example_ops (insert_tuple_' (example_update_log 5))
                   (insert_rid_' (example_update_log 5)) example_table_page
             | LogRecordType_UPDATE \<Rightarrow>
                 TablePage_UpdateTuple example_ops (new_tuple_' (example_update_log 5))
                   (update_rid_' (example_update_log 5)) example_table_page
             | LogRecordType_MARKDELETE \<Rightarrow>
                 TablePage_MarkDelete example_ops (delete_rid_' (example_update_log 5)) example_table_page
             | LogRecordType_APPLYDELETE \<Rightarrow>
                 TablePage_ApplyDelete example_ops (delete_rid_' (example_update_log 5)) example_table_page
             | LogRecordType_ROLLBACKDELETE \<Rightarrow>
                 TablePage_RollbackDelete example_ops (delete_rid_' (example_update_log 5))
                   example_table_page
             | _ \<Rightarrow> example_table_page)
            = example_table_page\<lparr>tuples := [((3, 0), ''B'', False)]\<rparr>"
    by (simp add: example_update_log_def example_ops_def example_table_page_def)
  have l5: "lsn_' (example_update_log 5) > page_lsn example_table_page"
    and l4: "\<not> lsn_' (example_update_log 4) > page_lsn example_table_page"
    by (simp_all add: example_update_log_def example_table_page_def)
  have l5v: "lsn_' (example_update_log 5) = 5" by (simp add: example_update_log_def)
  from Redo_record_replays_iff_newer[where ops = example_ops and pos = 0
      and log = "example_update_log 5", OF t p]
  have a: "fst (Redo_record example_ops 0 (example_update_log 5) example_recovery) = Returns ()"
    and b: "pages (recovery_buffer_pool_manager_' (snd (Redo_record example_ops 0 (example_update_log 5)
                                            example_recovery))) 3
       = Some (example_table_page\<lparr>page_lsn := 5, tuples := [((3, 0), ''B'', False)]\<rparr>)"
    unfolding u5 r using l5 by (simp_all add: l5v)
  from Redo_record_replays_iff_newer[where ops = example_ops and pos = 0
      and log = "example_update_log 4", OF t p]
  have c: "pages (recovery_buffer_pool_manager_' (snd (Redo_record example_ops 0 (example_update_log 4)
                                            example_recovery))) 3
       = Some example_table_page"
    using l4 by (simp add: example_recovery_def)
  from t p a b c show ?thesis by blast
qed

section \<open>Properties of the B+ tree\<close>

text \<open>
  C10. On an empty tree (\<open>root_page_id_ = INVALID_PAGE_ID\<close>), \<^verbatim>\<open>Begin()\<close> and
  \<^verbatim>\<open>Begin(key)\<close> return, whatever the fuel, an iterator whose leaf pointer is
  null, and leave the tree as it is; \<^verbatim>\<open>isEnd()\<close> is true of that iterator at
  once, and dereferencing or advancing it dereferences the null pointer.
\<close>

theorem Begin_on_empty_tree:
  assumes "IsEmpty t"
  shows "Begin fuel comparator useless t = Ok (new_IndexIterator None 0, t)
     \<and> Begin_key fuel comparator key t = Ok (new_IndexIterator None 0, t)
     \<and> leaf_' (new_IndexIterator None 0) = None
     \<and> isEnd (new_IndexIterator None 0)
     \<and> Iterator_deref (new_IndexIterator None 0) t = Failure NullPointer
     \<and> Iterator_next (new_IndexIterator None 0) t = Failure NullPointer"
  using assms
  by (simp add: Begin_def Begin_key_def FindLeafPage_def isEnd_def new_IndexIterator_def
      Iterator_deref_def Iterator_next_def leaf_of_def Let_def)

theorem Begin_on_empty_tree_witness:
  "IsEmpty example_empty_tree
   \<and> Begin 0 IntComparator 0 example_empty_tree = Ok (new_IndexIterator None 0, example_empty_tree)
   \<and> Begin_key 0 IntComparator 7 example_empty_tree
       = Ok (new_IndexIterator None 0, example_empty_tree)
   \<and> isEnd (new_IndexIterator None 0)
   \<and> Iterator_deref (new_IndexIterator None 0) example_empty_tree = Failure NullPointer
   \<and> Iterator_next (new_IndexIterator None 0) example_empty_tree = Failure NullPointer"
proof -
  have e: "IsEmpty example_empty_tree"
    by (simp add: IsEmpty_def example_empty_tree_def)
  from Begin_on_empty_tree[OF e, of 0 IntComparator 0 7] e show ?thesis by simp
qed

section \<open>The calls of CoalesceOrRedistribute\<close>

text \<open>
  Only \<^verbatim>\<open>CoalesceOrRedistribute\<close> itself extends the record of its calls; every
  other function leaves it as it is.
\<close>

lemma calls_set_page [simp]:
  "CoalesceOrRedistribute_calls (set_page t page_id page) = CoalesceOrRedistribute_calls t"
  by (simp add: set_page_def)

lemma calls_unpin [simp]:
  "CoalesceOrRedistribute_calls (unpin t page_id dirty) = CoalesceOrRedistribute_calls t"
  by (simp add: unpin_def)

lemma calls_Tree_FetchPage:
  "Tree_FetchPage t page_id = Ok (page, t1) \<Longrightarrow>
     CoalesceOrRedistribute_calls t1 = CoalesceOrRedistribute_calls t"
  by (auto simp: Tree_FetchPage_def split: prod.splits option.splits)

lemma calls_UpdateRootPageId:
  "UpdateRootPageId insert_record t = Ok t1 \<Longrightarrow>
     CoalesceOrRedistribute_calls t1 = CoalesceOrRedistribute_calls t"
  by (auto simp: UpdateRootPageId_def dest!: calls_Tree_FetchPage
      split: result.splits prod.splits Page.splits)

lemma calls_FreePages_loop:
  "FreePages_loop exclusive ps deleted t = (deleted1, t1) \<Longrightarrow>
     CoalesceOrRedistribute_calls t1 = CoalesceOrRedistribute_calls t"
  by (induction ps arbitrary: deleted t) (auto simp: Let_def split: if_splits)

lemma calls_FreePagesInTransaction:
  "FreePagesInTransaction exclusive transaction cur t = Ok (transaction1, t1) \<Longrightarrow>
     CoalesceOrRedistribute_calls t1 = CoalesceOrRedistribute_calls t"
  by (auto simp: FreePagesInTransaction_def dest: calls_FreePages_loop
      split: option.splits if_splits prod.splits)

lemma calls_CrabingProtocalFetchPage:
  "CrabingProtocalFetchPage page_id op previous transaction t = Ok (pointer, transaction1, t1) \<Longrightarrow>
     CoalesceOrRedistribute_calls t1 = CoalesceOrRedistribute_calls t"
  by (auto simp: CrabingProtocalFetchPage_def Let_def
      dest!: calls_Tree_FetchPage calls_FreePagesInTransaction
      split: result.splits prod.splits if_splits)

lemma calls_FindLeafPage_loop:
  "FindLeafPage_loop fuel comparator key leftMost op pointer cur transaction t
     = Ok (leaf, transaction1, t1) \<Longrightarrow>
   CoalesceOrRedistribute_calls t1 = CoalesceOrRedistribute_calls t"
proof (induction fuel arbitrary: pointer cur transaction t)
  case 0
  then show ?case by simp
next
  case (Suc fuel)
  from Suc.prems show ?case
    by (auto split: option.splits Page.splits result.splits prod.splits
        dest!: calls_CrabingProtocalFetchPage Suc.IH)
qed

lemma calls_FindLeafPage:
  "FindLeafPage fuel comparator key leftMost op transaction t = Ok (leaf, transaction1, t1) \<Longrightarrow>
     CoalesceOrRedistribute_calls t1 = CoalesceOrRedistribute_calls t"
  by (auto simp: FindLeafPage_def
      dest!: calls_CrabingProtocalFetchPage calls_FindLeafPage_loop
      split: if_splits result.splits prod.splits)

lemma calls_reparent:
  "reparent children parent_id t = Ok t1 \<Longrightarrow>
     CoalesceOrRedistribute_calls t1 = CoalesceOrRedistribute_calls t"
proof (induction children arbitrary: t)
  case Nil
  then show ?case by simp
next
  case (Cons child children)
  from Cons.prems show ?case
    by (auto split: result.splits prod.splits dest!: calls_Tree_FetchPage Cons.IH)
qed

lemma calls_Internal_MoveAllTo:
  "Internal_MoveAllTo node recipient index t = Ok t1 \<Longrightarrow>
     CoalesceOrRedistribute_calls t1 = CoalesceOrRedistribute_calls t"
  by (auto simp: Internal_MoveAllTo_def Let_def
      dest!: calls_Tree_FetchPage calls_reparent
      split: result.splits prod.splits Page.splits)

lemma calls_Internal_MoveFirstToEndOf:
  "Internal_MoveFirstToEndOf neighbor recipient t = Ok t1 \<Longrightarrow>
     CoalesceOrRedistribute_calls t1 = CoalesceOrRedistribute_calls t"
  by (auto simp: Internal_MoveFirstToEndOf_def Let_def
      dest!: calls_Tree_FetchPage calls_reparent
      split: result.splits prod.splits Page.splits list.splits)

lemma calls_Internal_MoveLastToFrontOf:
  "Internal_MoveLastToFrontOf neighbor recipient parent_index t = Ok t1 \<Longrightarrow>
     CoalesceOrRedistribute_calls t1 = CoalesceOrRedistribute_calls t"
  by (auto simp: Internal_MoveLastToFrontOf_def Let_def
      dest!: calls_Tree_FetchPage calls_reparent
      split: result.splits prod.splits Page.splits if_splits)

lemma calls_Leaf_MoveFirstToEndOf:
  "Leaf_MoveFirstToEndOf neighbor recipient t = Ok t1 \<Longrightarrow>
     CoalesceOrRedistribute_calls t1 = CoalesceOrRedistribute_calls t"
  by (auto simp: Leaf_MoveFirstToEndOf_def Let_def
      dest!: calls_Tree_FetchPage
      split: result.splits prod.splits Page.splits)

lemma calls_CopyFirstFrom:
  "CopyFirstFrom recipient item parentIndex t = Ok t1 \<Longrightarrow>
     CoalesceOrRedistribute_calls t1 = CoalesceOrRedistribute_calls t"
  by (auto simp: CopyFirstFrom_def Let_def
      dest!: calls_Tree_FetchPage
      split: result.splits prod.splits Page.splits if_splits)

lemma calls_Leaf_MoveLastToFrontOf:
  "Leaf_MoveLastToFrontOf neighbor recipient parentIndex t = Ok t1 \<Longrightarrow>
     CoalesceOrRedistribute_calls t1 = CoalesceOrRedistribute_calls t"
  by (auto simp: Leaf_MoveLastToFrontOf_def dest!: calls_CopyFirstFrom split: result.splits)

lemma calls_Redistribute:
  "Redistribute neighbor_node node index t = Ok t1 \<Longrightarrow>
     CoalesceOrRedistribute_calls t1 = CoalesceOrRedistribute_calls t"
  by (auto simp: Redistribute_def
      dest!: calls_Leaf_MoveFirstToEndOf calls_Leaf_MoveLastToFrontOf
        calls_Internal_MoveFirstToEndOf calls_Internal_MoveLastToFrontOf
      split: result.splits Page.splits if_splits)

lemma calls_MoveAllTo:
  "MoveAllTo node recipient index t = Ok t1 \<Longrightarrow>
     CoalesceOrRedistribute_calls t1 = CoalesceOrRedistribute_calls t"
  by (auto simp: MoveAllTo_def dest!: calls_Internal_MoveAllTo
      split: result.splits Page.splits prod.splits)

lemma calls_AdjustRoot:
  "AdjustRoot old_root_node t = Ok (b, t1) \<Longrightarrow>
     CoalesceOrRedistribute_calls t1 = CoalesceOrRedistribute_calls t"
  by (auto simp: AdjustRoot_def FetchPage_def pin_def dest!: calls_UpdateRootPageId
      split: result.splits Page.splits prod.splits if_splits option.splits)

lemma calls_FindLeftSibling:
  "FindLeftSibling node transaction t = Ok (r, transaction1, t1) \<Longrightarrow>
     CoalesceOrRedistribute_calls t1 = CoalesceOrRedistribute_calls t"
  by (auto simp: FindLeftSibling_def Let_def
      dest!: calls_Tree_FetchPage calls_CrabingProtocalFetchPage
      split: result.splits Page.splits prod.splits)

lemma calls_Coalesce:
  assumes rec: "\<forall>p txn s b txn1 s1. rec p txn s = Ok (b, txn1, s1) \<longrightarrow>
                  (\<exists>cs. CoalesceOrRedistribute_calls s1 = CoalesceOrRedistribute_calls s @ p # cs)"
    and run: "Coalesce rec neighbor_node node parent index transaction t = Ok (b, transaction1, t1)"
    and move: "MoveAllTo node neighbor_node index t = Ok tm"
    and par: "internal_of tm parent = Ok parentPage"
    and rm: "Internal_Remove parentPage index = Ok parentPage1"
  shows "if GetSize parentPage1 \<le> GetMinSize False parentPage1
         then \<exists>cs. CoalesceOrRedistribute_calls t1 = CoalesceOrRedistribute_calls t @ parent # cs
         else CoalesceOrRedistribute_calls t1 = CoalesceOrRedistribute_calls t"
proof -
  have cm: "CoalesceOrRedistribute_calls tm = CoalesceOrRedistribute_calls t"
    using calls_MoveAllTo[OF move] .
  from run move par rm obtain txn2 where
    step: "(if GetSize parentPage1 \<le> GetMinSize False parentPage1
            then rec parent txn2 (set_page tm parent (INTERNAL_PAGE parentPage1))
            else Ok (False, txn2, set_page tm parent (INTERNAL_PAGE parentPage1)))
           = Ok (b, transaction1, t1)"
    by (auto simp: Coalesce_def Let_def split: result.splits if_splits)
  show ?thesis
  proof (cases "GetSize parentPage1 \<le> GetMinSize False parentPage1")
    case True
    with step have "rec parent txn2 (set_page tm parent (INTERNAL_PAGE parentPage1))
                      = Ok (b, transaction1, t1)" by simp
    with rec cm True show ?thesis by fastforce
  next
    case False
    with step cm show ?thesis by auto
  qed
qed

lemma calls_Coalesce_extends:
  assumes rec: "\<forall>p txn s b txn1 s1. rec p txn s = Ok (b, txn1, s1) \<longrightarrow>
                  (\<exists>cs. CoalesceOrRedistribute_calls s1 = CoalesceOrRedistribute_calls s @ p # cs)"
    and run: "Coalesce rec neighbor_node node parent index transaction t = Ok (b, transaction1, t1)"
  shows "\<exists>cs. CoalesceOrRedistribute_calls t1 = CoalesceOrRedistribute_calls t @ cs"
proof -
  from run obtain tm parentPage parentPage1 where
    "MoveAllTo node neighbor_node index t = Ok tm" "internal_of tm parent = Ok parentPage"
    "Internal_Remove parentPage index = Ok parentPage1"
    by (auto simp: Coalesce_def Let_def split: result.splits if_splits)
  from calls_Coalesce[OF rec run this] show ?thesis
    by (auto split: if_splits)
qed

lemma calls_CoalesceOrRedistribute:
  fixes t :: "('k, 'v) BPlusTree"
  shows "CoalesceOrRedistribute fuel node transaction t = Ok (b, transaction1, t1) \<Longrightarrow>
     \<exists>cs. CoalesceOrRedistribute_calls t1 = CoalesceOrRedistribute_calls t @ node # cs"
proof (induction fuel arbitrary: node transaction t b transaction1 t1)
  case 0
  then show ?case by simp
next
  case (Suc fuel)
  define t0 where "t0 = t\<lparr>CoalesceOrRedistribute_calls := CoalesceOrRedistribute_calls t @ [node]\<rparr>"
  have c0: "CoalesceOrRedistribute_calls t0 = CoalesceOrRedistribute_calls t @ [node]"
    by (simp add: t0_def)
  have IH: "\<forall>p txn (s :: ('k, 'v) BPlusTree) b txn1 s1.
               CoalesceOrRedistribute fuel p txn s = Ok (b, txn1, s1) \<longrightarrow>
                  (\<exists>cs. CoalesceOrRedistribute_calls s1 = CoalesceOrRedistribute_calls s @ p # cs)"
    by (intro allI impI) (erule Suc.IH)
  have ext: "\<exists>cs. CoalesceOrRedistribute_calls t1 = CoalesceOrRedistribute_calls t0 @ cs"
    using Suc.prems
    by (auto simp: Let_def t0_def[symmetric]
        split: result.splits prod.splits if_splits Page.splits
        dest!: calls_AdjustRoot calls_FindLeftSibling calls_Tree_FetchPage
          calls_Redistribute calls_Coalesce_extends[OF IH])
  with c0 show ?case by auto
qed

lemma is_Ok_the_Ok: "is_Ok r \<Longrightarrow> r = Ok (the_Ok r)"
  by (cases r) auto

lemma Remove_calls:
  fixes t :: "('k, 'v) BPlusTree"
  assumes find: "FindLeafPage fuel comparator key False OpType_DELETE transaction t
                   = Ok (Some delTar, transaction1, ta)"
    and leaf: "leaf_at ta delTar = Ok p"
    and del: "RemoveAndDeleteRecord p key comparator = Ok p1"
    and run: "Remove fuel comparator key transaction t = Ok (transaction2, tb)"
  shows "if GetSize p1 < GetMinSize True p1
         then \<exists>cs. CoalesceOrRedistribute_calls tb = CoalesceOrRedistribute_calls t @ delTar # cs
         else CoalesceOrRedistribute_calls tb = CoalesceOrRedistribute_calls t"
proof -
  have ne: "\<not> IsEmpty t" using find by (auto simp: FindLeafPage_def split: if_splits)
  have ca: "CoalesceOrRedistribute_calls ta = CoalesceOrRedistribute_calls t"
    using calls_FindLeafPage[OF find] .
  define t2 where "t2 = set_page ta delTar (LEAF_PAGE p1)"
  have c2: "CoalesceOrRedistribute_calls t2 = CoalesceOrRedistribute_calls t"
    by (simp add: t2_def ca)
  show ?thesis
  proof (cases "GetSize p1 < GetMinSize True p1")
    case True
    with run ne find leaf del obtain b txn3 t3 where
      c: "CoalesceOrRedistribute fuel delTar transaction1 t2 = Ok (b, txn3, t3)"
      and f: "FreePagesInTransaction True txn3 (- 1) t3 = Ok (transaction2, tb)"
      by (auto simp: Remove_def Let_def t2_def split: result.splits prod.splits)
    from calls_CoalesceOrRedistribute[OF c] calls_FreePagesInTransaction[OF f] c2 True
    show ?thesis by auto
  next
    case False
    with run ne find leaf del have
      f: "FreePagesInTransaction True transaction1 (- 1) t2 = Ok (transaction2, tb)"
      by (auto simp: Remove_def Let_def t2_def split: result.splits prod.splits)
    from calls_FreePagesInTransaction[OF f] c2 False show ?thesis by auto
  qed
qed


text \<open>
  C4. (1) When \<^verbatim>\<open>Remove\<close> has found the leaf of the key and taken the key out
  of it (\<open>p1\<close> is the leaf after \<^verbatim>\<open>RemoveAndDeleteRecord\<close>, written back to
  the leaf's page), what \<^verbatim>\<open>Remove\<close> does next is decided by the leaf's
  remaining size: when it is strictly less than the minimal size, the rest of
  \<^verbatim>\<open>Remove\<close> is \<^verbatim>\<open>CoalesceOrRedistribute\<close> on the leaf followed by
  \<^verbatim>\<open>FreePagesInTransaction\<close>; when it is not, the rest is
  \<^verbatim>\<open>FreePagesInTransaction\<close> alone, and a run that returns has made no call
  of \<^verbatim>\<open>CoalesceOrRedistribute\<close> at all. (2) When \<^verbatim>\<open>Coalesce\<close> has
  moved the entries of \<open>node\<close> to its neighbour, put \<open>node\<close> into the
  deleted-page set and removed the separator from the parent (\<open>parentPage1\<close> is the
  parent after \<^verbatim>\<open>Remove(index)\<close>, written back to the parent's page), its result
  is decided by the parent's size: when it is less than or equal to the minimal size,
  the result of \<^verbatim>\<open>Coalesce\<close> is the result of the recursive call on the parent
  (\<open>rec\<close>, for whatever stands for \<^verbatim>\<open>CoalesceOrRedistribute\<close> there), with
  the transaction and the tree as they are then; when it is not, \<^verbatim>\<open>Coalesce\<close>
  returns false with that transaction and tree and makes no such call. The record of
  calls says the same of the runs that return: the leaf (the parent) is in it iff the
  threshold is met.
\<close>

theorem Remove_Coalesce_thresholds:
  fixes t s :: "('k, 'v) BPlusTree"
  shows
  "(FindLeafPage fuel comparator key False OpType_DELETE transaction t
        = Ok (Some delTar, transaction1, ta) \<longrightarrow>
    leaf_at ta delTar = Ok p \<longrightarrow>
    RemoveAndDeleteRecord p key comparator = Ok p1 \<longrightarrow>
      Remove fuel comparator key transaction t =
        (if GetSize p1 < GetMinSize True p1
         then (case CoalesceOrRedistribute fuel delTar transaction1
                      (set_page ta delTar (LEAF_PAGE p1)) of
                 Failure f \<Rightarrow> Failure f
               | Ok (deleted, transaction3, t3) \<Rightarrow>
                   FreePagesInTransaction True transaction3 (- 1) t3)
         else FreePagesInTransaction True transaction1 (- 1) (set_page ta delTar (LEAF_PAGE p1)))
      \<and> (\<forall>transaction2 tb.
            Remove fuel comparator key transaction t = Ok (transaction2, tb) \<longrightarrow>
              ((\<exists>cs. CoalesceOrRedistribute_calls tb = CoalesceOrRedistribute_calls t @ delTar # cs)
                 \<longleftrightarrow> GetSize p1 < GetMinSize True p1)
              \<and> (\<not> GetSize p1 < GetMinSize True p1 \<longrightarrow>
                   CoalesceOrRedistribute_calls tb = CoalesceOrRedistribute_calls t)))
   \<and>
   (deref s node = Ok nodePage \<longrightarrow>
    deref s neighbor_node = Ok neighborPage \<longrightarrow>
    Page_GetSize nodePage = Ok nodeSize \<longrightarrow>
    Page_GetSize neighborPage = Ok neighborSize \<longrightarrow>
    Page_GetMaxSize nodePage = Ok nodeMaxSize \<longrightarrow>
    nodeSize + neighborSize \<le> nodeMaxSize \<longrightarrow>
    MoveAllTo node neighbor_node index s = Ok sm \<longrightarrow>
    deref sm node = Ok nodePage1 \<longrightarrow>
    Page_GetPageId nodePage1 = Ok nodeId \<longrightarrow>
    AddIntoDeletedPageSet txn nodeId = Ok txn1 \<longrightarrow>
    internal_of sm parent = Ok parentPage \<longrightarrow>
    Internal_Remove parentPage index = Ok parentPage1 \<longrightarrow>
      Coalesce rec neighbor_node node parent index txn s =
        (if GetSize parentPage1 \<le> GetMinSize False parentPage1
         then rec parent txn1 (set_page sm parent (INTERNAL_PAGE parentPage1))
         else Ok (False, txn1, set_page sm parent (INTERNAL_PAGE parentPage1)))
      \<and> (\<forall>b txn2 s1.
            Coalesce (CoalesceOrRedistribute fuel2) neighbor_node node parent index txn s
              = Ok (b, txn2, s1) \<longrightarrow>
              ((\<exists>cs. CoalesceOrRedistribute_calls s1 = CoalesceOrRedistribute_calls s @ parent # cs)
                 \<longleftrightarrow> GetSize parentPage1 \<le> GetMinSize False parentPage1)
              \<and> (\<not> GetSize parentPage1 \<le> GetMinSize False parentPage1 \<longrightarrow>
                   CoalesceOrRedistribute_calls s1 = CoalesceOrRedistribute_calls s)))"
proof (intro conjI impI allI)
  assume a: "FindLeafPage fuel comparator key False OpType_DELETE transaction t
               = Ok (Some delTar, transaction1, ta)"
    "leaf_at ta delTar = Ok p" "RemoveAndDeleteRecord p key comparator = Ok p1"
  from a(1) have ne: "\<not> IsEmpty t" by (auto simp: FindLeafPage_def split: if_splits)
  from ne a show "Remove fuel comparator key transaction t =
        (if GetSize p1 < GetMinSize True p1
         then (case CoalesceOrRedistribute fuel delTar transaction1
                      (set_page ta delTar (LEAF_PAGE p1)) of
                 Failure f \<Rightarrow> Failure f
               | Ok (deleted, transaction3, t3) \<Rightarrow>
                   FreePagesInTransaction True transaction3 (- 1) t3)
         else FreePagesInTransaction True transaction1 (- 1) (set_page ta delTar (LEAF_PAGE p1)))"
    by (simp add: Remove_def Let_def split: result.splits prod.splits)
  fix transaction2 tb
  assume run: "Remove fuel comparator key transaction t = Ok (transaction2, tb)"
  from Remove_calls[OF a run]
  show "(\<exists>cs. CoalesceOrRedistribute_calls tb = CoalesceOrRedistribute_calls t @ delTar # cs)
         \<longleftrightarrow> GetSize p1 < GetMinSize True p1"
    by (auto split: if_splits)
  assume "\<not> GetSize p1 < GetMinSize True p1"
  with Remove_calls[OF a run]
  show "CoalesceOrRedistribute_calls tb = CoalesceOrRedistribute_calls t" by simp
next
  assume a: "deref s node = Ok nodePage" "deref s neighbor_node = Ok neighborPage"
    "Page_GetSize nodePage = Ok nodeSize" "Page_GetSize neighborPage = Ok neighborSize"
    "Page_GetMaxSize nodePage = Ok nodeMaxSize" "nodeSize + neighborSize \<le> nodeMaxSize"
    "MoveAllTo node neighbor_node index s = Ok sm" "deref sm node = Ok nodePage1"
    "Page_GetPageId nodePage1 = Ok nodeId" "AddIntoDeletedPageSet txn nodeId = Ok txn1"
    "internal_of sm parent = Ok parentPage" "Internal_Remove parentPage index = Ok parentPage1"
  from a show "Coalesce rec neighbor_node node parent index txn s =
        (if GetSize parentPage1 \<le> GetMinSize False parentPage1
         then rec parent txn1 (set_page sm parent (INTERNAL_PAGE parentPage1))
         else Ok (False, txn1, set_page sm parent (INTERNAL_PAGE parentPage1)))"
    by (simp add: Coalesce_def Let_def)
  fix b txn2 s1
  assume run: "Coalesce (CoalesceOrRedistribute fuel2) neighbor_node node parent index txn s
                 = Ok (b, txn2, s1)"
  have rec: "\<forall>p txn (s :: ('k, 'v) BPlusTree) b txn1 s1.
               CoalesceOrRedistribute fuel2 p txn s = Ok (b, txn1, s1) \<longrightarrow>
               (\<exists>cs. CoalesceOrRedistribute_calls s1 = CoalesceOrRedistribute_calls s @ p # cs)"
    by (intro allI impI) (erule calls_CoalesceOrRedistribute)
  note c = calls_Coalesce[OF rec run a(7) a(11) a(12)]
  from c
  show "(\<exists>cs. CoalesceOrRedistribute_calls s1 = CoalesceOrRedistribute_calls s @ parent # cs)
         \<longleftrightarrow> GetSize parentPage1 \<le> GetMinSize False parentPage1"
    by (auto split: if_splits)
  assume "\<not> GetSize parentPage1 \<le> GetMinSize False parentPage1"
  with c show "CoalesceOrRedistribute_calls s1 = CoalesceOrRedistribute_calls s" by simp
qed

theorem Remove_Coalesce_thresholds_witness:
  "is_Ok (FindLeafPage 3 IntComparator 1 False OpType_DELETE (Some (new_Transaction 0)) example_tree)
   \<and> is_Ok (Remove 3 IntComparator 1 (Some (new_Transaction 0)) example_tree)
   \<and> Remove 3 IntComparator 1 (Some (new_Transaction 0)) example_tree =
       (case CoalesceOrRedistribute 3 1
               (fst (snd (the_Ok (FindLeafPage 3 IntComparator 1 False OpType_DELETE
                                    (Some (new_Transaction 0)) example_tree))))
               (set_page
                  (snd (snd (the_Ok (FindLeafPage 3 IntComparator 1 False OpType_DELETE
                                       (Some (new_Transaction 0)) example_tree))))
                  1
                  (LEAF_PAGE \<lparr>page_id_' = 1, parent_page_id_' = 3, next_page_id_' = 2,
                               max_size_' = 3, array = [(5, (5, 0))]\<rparr>)) of
          Failure f \<Rightarrow> Failure f
        | Ok (deleted, transaction3, t3) \<Rightarrow> FreePagesInTransaction True transaction3 (- 1) t3)
   \<and> (\<exists>cs. CoalesceOrRedistribute_calls
              (snd (the_Ok (Remove 3 IntComparator 1 (Some (new_Transaction 0)) example_tree)))
            = CoalesceOrRedistribute_calls example_tree @ 1 # cs)
   \<and> CoalesceOrRedistribute_calls
         (snd (the_Ok (Remove 3 IntComparator 1 (Some (new_Transaction 0)) example_tree))) = [1, 3]
   \<and> is_Ok (Remove 3 IntComparator 4 (Some (new_Transaction 0)) example_tree_full_leaf)
   \<and> CoalesceOrRedistribute_calls
         (snd (the_Ok (Remove 3 IntComparator 4 (Some (new_Transaction 0)) example_tree_full_leaf)))
       = CoalesceOrRedistribute_calls example_tree_full_leaf
   \<and> is_Ok (Coalesce (CoalesceOrRedistribute 2) 1 2 3 1 (Some example_txn_in_Coalesce)
               example_tree_in_Coalesce)
   \<and> Coalesce (CoalesceOrRedistribute 2) 1 2 3 1 (Some example_txn_in_Coalesce)
         example_tree_in_Coalesce
       = CoalesceOrRedistribute 2 3
           (Some (example_txn_in_Coalesce\<lparr>deleted_page_set_' := [2]\<rparr>))
           (set_page (the_Ok (MoveAllTo 2 1 1 example_tree_in_Coalesce)) 3
              (INTERNAL_PAGE \<lparr>page_id_' = 3, parent_page_id_' = - 1, next_page_id_' = - 1,
                               max_size_' = 3, array = [(5, 1)]\<rparr>))
   \<and> (\<exists>cs. CoalesceOrRedistribute_calls
              (snd (snd (the_Ok (Coalesce (CoalesceOrRedistribute 2) 1 2 3 1
                                   (Some example_txn_in_Coalesce) example_tree_in_Coalesce))))
            = CoalesceOrRedistribute_calls example_tree_in_Coalesce @ 3 # cs)"
proof -
  let ?txn = "Some (new_Transaction 0)"
  let ?F = "FindLeafPage 3 IntComparator 1 False OpType_DELETE ?txn example_tree"
  let ?R = "Remove 3 IntComparator 1 ?txn example_tree"
  let ?ta = "snd (snd (the_Ok ?F))"
  let ?p = "the_Ok (leaf_at ?ta 1)"
  let ?p1 = "the_Ok (RemoveAndDeleteRecord ?p 1 IntComparator)"
  have F: "is_Ok ?F" by code_simp
  have F1: "fst (the_Ok ?F) = Some 1" by code_simp
  have f: "?F = Ok (Some 1, fst (snd (the_Ok ?F)), ?ta)"
    using is_Ok_the_Ok[OF F] F1 by (metis prod.collapse)
  have L: "is_Ok (leaf_at ?ta 1)" by code_simp
  have l: "leaf_at ?ta 1 = Ok ?p" using is_Ok_the_Ok[OF L] .
  have D: "is_Ok (RemoveAndDeleteRecord ?p 1 IntComparator)" by code_simp
  have d: "RemoveAndDeleteRecord ?p 1 IntComparator = Ok ?p1" using is_Ok_the_Ok[OF D] .
  have p1: "?p1 = \<lparr>page_id_' = 1, parent_page_id_' = 3, next_page_id_' = 2,
                    max_size_' = 3, array = [(5, (5, 0))]\<rparr>" by code_simp
  have R: "is_Ok ?R" by code_simp
  have r: "?R = Ok (fst (the_Ok ?R), snd (the_Ok ?R))" using is_Ok_the_Ok[OF R] by simp
  have sz: "GetSize ?p1 < GetMinSize True ?p1" by code_simp
  have c: "CoalesceOrRedistribute_calls (snd (the_Ok ?R)) = [1, 3]" by code_simp
  note inst1 = Remove_Coalesce_thresholds[THEN conjunct1, rule_format, OF f l d]
  from inst1[THEN conjunct1] sz p1
  have e0: "?R = (case CoalesceOrRedistribute 3 1 (fst (snd (the_Ok ?F)))
               (set_page ?ta 1
                  (LEAF_PAGE \<lparr>page_id_' = 1, parent_page_id_' = 3, next_page_id_' = 2,
                               max_size_' = 3, array = [(5, (5, 0))]\<rparr>)) of
          Failure f \<Rightarrow> Failure f
        | Ok (deleted, transaction3, t3) \<Rightarrow> FreePagesInTransaction True transaction3 (- 1) t3)"
    by simp
  from inst1[THEN conjunct2, rule_format, OF r] sz
  have e1: "\<exists>cs. CoalesceOrRedistribute_calls (snd (the_Ok ?R))
            = CoalesceOrRedistribute_calls example_tree @ 1 # cs" by blast
  let ?F4 = "FindLeafPage 3 IntComparator 4 False OpType_DELETE ?txn example_tree_full_leaf"
  let ?R4 = "Remove 3 IntComparator 4 ?txn example_tree_full_leaf"
  let ?ta4 = "snd (snd (the_Ok ?F4))"
  let ?p4 = "the_Ok (leaf_at ?ta4 1)"
  let ?p41 = "the_Ok (RemoveAndDeleteRecord ?p4 4 IntComparator)"
  have F4: "is_Ok ?F4" by code_simp
  have F41: "fst (the_Ok ?F4) = Some 1" by code_simp
  have f4: "?F4 = Ok (Some 1, fst (snd (the_Ok ?F4)), ?ta4)"
    using is_Ok_the_Ok[OF F4] F41 by (metis prod.collapse)
  have L4: "is_Ok (leaf_at ?ta4 1)" by code_simp
  have l4: "leaf_at ?ta4 1 = Ok ?p4" using is_Ok_the_Ok[OF L4] .
  have D4: "is_Ok (RemoveAndDeleteRecord ?p4 4 IntComparator)" by code_simp
  have d4: "RemoveAndDeleteRecord ?p4 4 IntComparator = Ok ?p41" using is_Ok_the_Ok[OF D4] .
  have R4: "is_Ok ?R4" by code_simp
  have r4: "?R4 = Ok (fst (the_Ok ?R4), snd (the_Ok ?R4))" using is_Ok_the_Ok[OF R4] by simp
  have sz4: "\<not> GetSize ?p41 < GetMinSize True ?p41" by code_simp
  from Remove_Coalesce_thresholds[THEN conjunct1, rule_format, OF f4 l4 d4,
      THEN conjunct2, rule_format, OF r4] sz4
  have e4: "CoalesceOrRedistribute_calls (snd (the_Ok ?R4))
            = CoalesceOrRedistribute_calls example_tree_full_leaf" by blast
  let ?s = "example_tree_in_Coalesce"
  let ?C = "Coalesce (CoalesceOrRedistribute 2) 1 2 3 1 (Some example_txn_in_Coalesce) ?s"
  let ?sm = "the_Ok (MoveAllTo 2 1 1 ?s)"
  let ?pp = "the_Ok (internal_of ?sm 3)"
  let ?pp1 = "the_Ok (Internal_Remove ?pp 1)"
  have C: "is_Ok ?C" by code_simp
  have cc: "?C = Ok (fst (the_Ok ?C), fst (snd (the_Ok ?C)), snd (snd (the_Ok ?C)))"
    using is_Ok_the_Ok[OF C] by simp
  have N: "is_Ok (deref ?s 2)" by code_simp
  have n: "deref ?s 2 = Ok (the_Ok (deref ?s 2))" using is_Ok_the_Ok[OF N] .
  have B: "is_Ok (deref ?s 1)" by code_simp
  have b: "deref ?s 1 = Ok (the_Ok (deref ?s 1))" using is_Ok_the_Ok[OF B] .
  have NS: "is_Ok (Page_GetSize (the_Ok (deref ?s 2)))" by code_simp
  have ns: "Page_GetSize (the_Ok (deref ?s 2)) = Ok (the_Ok (Page_GetSize (the_Ok (deref ?s 2))))"
    using is_Ok_the_Ok[OF NS] .
  have BS: "is_Ok (Page_GetSize (the_Ok (deref ?s 1)))" by code_simp
  have bs: "Page_GetSize (the_Ok (deref ?s 1)) = Ok (the_Ok (Page_GetSize (the_Ok (deref ?s 1))))"
    using is_Ok_the_Ok[OF BS] .
  have NM: "is_Ok (Page_GetMaxSize (the_Ok (deref ?s 2)))" by code_simp
  have nm: "Page_GetMaxSize (the_Ok (deref ?s 2))
              = Ok (the_Ok (Page_GetMaxSize (the_Ok (deref ?s 2))))"
    using is_Ok_the_Ok[OF NM] .
  have fits: "the_Ok (Page_GetSize (the_Ok (deref ?s 2)))
                + the_Ok (Page_GetSize (the_Ok (deref ?s 1)))
              \<le> the_Ok (Page_GetMaxSize (the_Ok (deref ?s 2)))" by code_simp
  have M: "is_Ok (MoveAllTo 2 1 1 ?s)" by code_simp
  have m: "MoveAllTo 2 1 1 ?s = Ok ?sm" using is_Ok_the_Ok[OF M] .
  have N1: "is_Ok (deref ?sm 2)" by code_simp
  have n1: "deref ?sm 2 = Ok (the_Ok (deref ?sm 2))" using is_Ok_the_Ok[OF N1] .
  have I: "Page_GetPageId (the_Ok (deref ?sm 2)) = Ok 2" by code_simp
  have A: "AddIntoDeletedPageSet (Some example_txn_in_Coalesce) 2
             = Ok (Some (example_txn_in_Coalesce\<lparr>deleted_page_set_' := [2]\<rparr>))" by code_simp
  have P: "is_Ok (internal_of ?sm 3)" by code_simp
  have p: "internal_of ?sm 3 = Ok ?pp" using is_Ok_the_Ok[OF P] .
  have Q: "is_Ok (Internal_Remove ?pp 1)" by code_simp
  have q: "Internal_Remove ?pp 1 = Ok ?pp1" using is_Ok_the_Ok[OF Q] .
  have pp1: "?pp1 = \<lparr>page_id_' = 3, parent_page_id_' = - 1, next_page_id_' = - 1,
                      max_size_' = 3, array = [(5, 1)]\<rparr>" by code_simp
  have sz2: "GetSize ?pp1 \<le> GetMinSize False ?pp1" by code_simp
  note inst2 = Remove_Coalesce_thresholds[where rec = "CoalesceOrRedistribute 2",
      THEN conjunct2, rule_format, OF n b ns bs nm fits m n1 I A p q]
  from inst2[THEN conjunct1] sz2 pp1
  have e2: "?C = CoalesceOrRedistribute 2 3
           (Some (example_txn_in_Coalesce\<lparr>deleted_page_set_' := [2]\<rparr>))
           (set_page ?sm 3
              (INTERNAL_PAGE \<lparr>page_id_' = 3, parent_page_id_' = - 1, next_page_id_' = - 1,
                               max_size_' = 3, array = [(5, 1)]\<rparr>))"
    by simp
  from inst2[THEN conjunct2, rule_format, OF cc] sz2
  have e3: "\<exists>cs. CoalesceOrRedistribute_calls (snd (snd (the_Ok ?C)))
            = CoalesceOrRedistribute_calls example_tree_in_Coalesce @ 3 # cs" by blast
  from F R e0 e1 c R4 e4 C e2 e3 show ?thesis by blast
qed

section \<open>Pin balance\<close>

subsection \<open>The buffer pool's steps\<close>

lemma pins_set_page [simp]: "pins (set_page t page_id page) = pins t"
  by (simp add: pins_def set_page_def write_page_def)

lemma pins_unpin [simp]: "pins (unpin t page_id dirty) = (pins t)(page_id := pins t page_id - 1)"
  by (simp add: pins_def unpin_def UnpinPage_def)

lemma page_at_unpin [simp]: "page_at (unpin t page_id dirty) = page_at t"
  by (simp add: page_at_def unpin_def UnpinPage_def fun_eq_iff)

lemma page_at_set_page [simp]:
  "page_at (set_page t page_id page) = (page_at t)(page_id \<mapsto> page)"
  by (simp add: page_at_def set_page_def write_page_def fun_eq_iff)

lemma root_unpin [simp]: "root_page_id_' (unpin t page_id dirty) = root_page_id_' t"
  by (simp add: unpin_def)

lemma root_set_page [simp]: "root_page_id_' (set_page t page_id page) = root_page_id_' t"
  by (simp add: set_page_def)

lemma consistent_unpin [simp]:
  "page_ids_consistent (unpin t page_id dirty) = page_ids_consistent t"
  by (simp add: page_ids_consistent_def)

lemma consistent_set_page:
  "page_ids_consistent t \<Longrightarrow> page_id_ok page_id page \<Longrightarrow>
     page_ids_consistent (set_page t page_id page)"
  by (simp add: page_ids_consistent_def)

lemma consistent_page_at:
  "page_ids_consistent t \<Longrightarrow> page_at t page_id = Some page \<Longrightarrow> page_id_ok page_id page"
  by (simp add: page_ids_consistent_def)

lemma consistent_cong:
  "page_at t1 = page_at t \<Longrightarrow> page_ids_consistent t1 = page_ids_consistent t"
  by (simp add: page_ids_consistent_def)

lemma page_id_ok_simps [simp]:
  "page_id_ok page_id (LEAF_PAGE p) = (page_id_' p = page_id)"
  "page_id_ok page_id (INTERNAL_PAGE q) = (page_id_' q = page_id)"
  "page_id_ok page_id (HEADER_PAGE h)"
  "page_id_ok page_id INVALID_INDEX_PAGE"
  by (simp_all add: page_id_ok_def)

lemma Tree_FetchPage_Ok:
  "Tree_FetchPage t page_id = Ok (page, t1) \<Longrightarrow>
     page_at t page_id = Some page \<and> page_at t1 = page_at t
     \<and> pins t1 = (pins t)(page_id := pins t page_id + 1)
     \<and> root_page_id_' t1 = root_page_id_' t
     \<and> page_ids_consistent t1 = page_ids_consistent t"
  by (auto simp: Tree_FetchPage_def FetchPage_def pin_def page_at_def pins_def
      page_ids_consistent_def split: option.splits)

lemma Tree_NewPage_eq:
  "Tree_NewPage t = (newPageId, t1) \<Longrightarrow>
     page_at t1 = (page_at t)(newPageId \<mapsto> INVALID_INDEX_PAGE)
     \<and> pins t1 = (pins t)(newPageId := pins t newPageId + 1)
     \<and> root_page_id_' t1 = root_page_id_' t
     \<and> (page_ids_consistent t \<longrightarrow> page_ids_consistent t1)"
  by (auto simp: Tree_NewPage_def NewPage_def page_at_def pins_def page_ids_consistent_def
      split: if_splits)

lemma UpdateRootPageId_Ok:
  "UpdateRootPageId insert_record t = Ok t1 \<Longrightarrow>
     pins t1 = pins t \<and> root_page_id_' t1 = root_page_id_' t
     \<and> (page_ids_consistent t \<longrightarrow> page_ids_consistent t1)"
  by (auto simp: UpdateRootPageId_def dest!: Tree_FetchPage_Ok intro!: consistent_set_page
      split: result.splits prod.splits Page.splits)

subsection \<open>Freeing the pages of a transaction\<close>

lemma consistent_map_le:
  "page_ids_consistent t \<Longrightarrow> page_at t1 \<subseteq>\<^sub>m page_at t \<Longrightarrow> page_ids_consistent t1"
  unfolding page_ids_consistent_def map_le_def by (metis domI)

lemma FreePages_loop_eq:
  "FreePages_loop exclusive ps deleted t = (deleted1, t1) \<Longrightarrow>
     pins t1 = (\<lambda>q. pins t q - int (count_list ps q))
     \<and> page_at t1 \<subseteq>\<^sub>m page_at t
     \<and> root_page_id_' t1 = root_page_id_' t"
proof (induction ps arbitrary: deleted t)
  case Nil
  then show ?case by simp
next
  case (Cons curPid rest)
  define u where "u = unpin t curPid exclusive"
  show ?case
  proof (cases "curPid \<in> set deleted")
    case True
    define u1 where "u1 = u\<lparr>buffer_pool_manager_' := snd (DeletePage (buffer_pool_manager_' u) curPid)\<rparr>"
    from Cons.prems True have
      r: "FreePages_loop exclusive rest (snd (uset_erase curPid deleted)) u1 = (deleted1, t1)"
      by (simp add: Let_def u_def u1_def)
    have p1: "pins u1 = pins u" by (simp add: u1_def pins_def DeletePage_def)
    have a1: "page_at u1 \<subseteq>\<^sub>m page_at t"
      by (auto simp: u1_def u_def page_at_def unpin_def UnpinPage_def DeletePage_def map_le_def)
    have r1: "root_page_id_' u1 = root_page_id_' t" by (simp add: u1_def u_def)
    from Cons.IH[OF r] p1 a1 r1 show ?thesis
      by (auto simp: u_def fun_eq_iff intro: map_le_trans)
  next
    case False
    from Cons.prems False have r: "FreePages_loop exclusive rest deleted u = (deleted1, t1)"
      by (simp add: Let_def u_def)
    from Cons.IH[OF r] show ?thesis
      by (auto simp: u_def fun_eq_iff)
  qed
qed

lemma FreePagesInTransaction_Some:
  "FreePagesInTransaction exclusive (Some txn) cur t = Ok (transaction1, t1) \<Longrightarrow>
     (\<exists>txn1. transaction1 = Some txn1 \<and> page_set_' txn1 = [])
     \<and> pins t1 = (\<lambda>q. pins t q - held (Some txn) q)
     \<and> page_at t1 \<subseteq>\<^sub>m page_at t
     \<and> root_page_id_' t1 = root_page_id_' t"
  by (auto simp: FreePagesInTransaction_def held_def dest!: FreePages_loop_eq
      split: prod.splits if_splits)

lemma FreePagesInTransaction_None:
  "FreePagesInTransaction exclusive None cur t = Ok (transaction1, t1) \<Longrightarrow>
     transaction1 = None \<and> \<not> exclusive \<and> t1 = unpin t cur False"
  by (auto simp: FreePagesInTransaction_def split: if_splits)

lemma Tree_FetchPage_pins:
  "Tree_FetchPage t page_id = Ok (page, t1) \<Longrightarrow>
     page_at t page_id = Some page \<and> page_at t1 = page_at t
     \<and> pins t1 = (pins t)(page_id := pins t page_id + 1)
     \<and> root_page_id_' t1 = root_page_id_' t"
  by (auto simp: Tree_FetchPage_def FetchPage_def pin_def page_at_def pins_def
      split: option.splits)

lemma CrabingProtocalFetchPage_Some:
  "CrabingProtocalFetchPage page_id op previous (Some txn) t = Ok (pointer, transaction1, t1) \<Longrightarrow>
     pointer = page_id \<and> transaction1 \<noteq> None
     \<and> (\<forall>q. pins t1 q - held transaction1 q = pins t q - held (Some txn) q)
     \<and> page_at t1 \<subseteq>\<^sub>m page_at t
     \<and> root_page_id_' t1 = root_page_id_' t"
  by (auto simp: CrabingProtocalFetchPage_def Let_def held_def AddIntoPageSet_def
      split: result.splits prod.splits if_splits
      dest!: Tree_FetchPage_pins FreePagesInTransaction_Some)

lemma CrabingProtocalFetchPage_None:
  "CrabingProtocalFetchPage page_id op previous None t = Ok (pointer, transaction1, t1) \<Longrightarrow>
     pointer = page_id \<and> transaction1 = None
     \<and> page_at t page_id \<noteq> None
     \<and> page_at t1 = page_at t
     \<and> root_page_id_' t1 = root_page_id_' t
     \<and> (op = OpType_READ \<longrightarrow>
          pins t1 = (if 0 < previous
                     then ((pins t)(page_id := pins t page_id + 1))
                            (previous := ((pins t)(page_id := pins t page_id + 1)) previous - 1)
                     else (pins t)(page_id := pins t page_id + 1)))"
  by (auto simp: CrabingProtocalFetchPage_def Let_def AddIntoPageSet_def
      split: result.splits prod.splits if_splits
      dest!: Tree_FetchPage_pins FreePagesInTransaction_None)

subsection \<open>Finding the leaf\<close>

lemma FindLeafPage_loop_Some:
  "FindLeafPage_loop fuel comparator key leftMost op pointer cur (Some txn) t
       = Ok (leaf, transaction1, t1) \<Longrightarrow>
     transaction1 \<noteq> None
     \<and> (\<forall>q. pins t1 q - held transaction1 q = pins t q - held (Some txn) q)
     \<and> page_at t1 \<subseteq>\<^sub>m page_at t
     \<and> root_page_id_' t1 = root_page_id_' t
     \<and> (\<exists>p. page_at t1 leaf = Some (LEAF_PAGE p))"
proof (induction fuel arbitrary: pointer cur txn t)
  case 0
  then show ?case by simp
next
  case (Suc fuel)
  show ?case
  proof (cases "page_at t pointer")
    case None
    with Suc.prems show ?thesis by simp
  next
    case (Some page)
    show ?thesis
    proof (cases page)
      case (LEAF_PAGE p)
      with Some Suc.prems show ?thesis by auto
    next
      case (INTERNAL_PAGE internalPage)
      with Some Suc.prems obtain "next" pointer1 transaction0 t0 where
        crab: "CrabingProtocalFetchPage next op cur (Some txn) t = Ok (pointer1, transaction0, t0)"
        and rest: "FindLeafPage_loop fuel comparator key leftMost op pointer1 next transaction0 t0
                     = Ok (leaf, transaction1, t1)"
        by (auto split: result.splits)
      from CrabingProtocalFetchPage_Some[OF crab] obtain txn0 where
        c: "transaction0 = Some txn0"
        "\<forall>q. pins t0 q - held (Some txn0) q = pins t q - held (Some txn) q"
        "page_at t0 \<subseteq>\<^sub>m page_at t" "root_page_id_' t0 = root_page_id_' t"
        by auto
      from Suc.IH[OF rest[unfolded c(1)]] c show ?thesis
        by (auto intro: map_le_trans)
    next
      case (HEADER_PAGE h)
      with Some Suc.prems show ?thesis by simp
    next
      case INVALID_INDEX_PAGE
      with Some Suc.prems show ?thesis by simp
    qed
  qed
qed

lemma FindLeafPage_loop_None:
  "FindLeafPage_loop fuel comparator key leftMost op pointer cur None t
       = Ok (leaf, transaction1, t1) \<Longrightarrow>
     transaction1 = None \<and> page_at t1 = page_at t \<and> root_page_id_' t1 = root_page_id_' t
     \<and> (\<exists>p. page_at t1 leaf = Some (LEAF_PAGE p))"
proof (induction fuel arbitrary: pointer cur t)
  case 0
  then show ?case by simp
next
  case (Suc fuel)
  show ?case
  proof (cases "page_at t pointer")
    case None
    with Suc.prems show ?thesis by simp
  next
    case (Some page)
    show ?thesis
    proof (cases page)
      case (LEAF_PAGE p)
      with Some Suc.prems show ?thesis by auto
    next
      case (INTERNAL_PAGE internalPage)
      with Some Suc.prems obtain "next" pointer1 transaction0 t0 where
        crab: "CrabingProtocalFetchPage next op cur None t = Ok (pointer1, transaction0, t0)"
        and rest: "FindLeafPage_loop fuel comparator key leftMost op pointer1 next transaction0 t0
                     = Ok (leaf, transaction1, t1)"
        by (auto split: result.splits)
      from CrabingProtocalFetchPage_None[OF crab] have
        c: "transaction0 = None" "page_at t0 = page_at t" "root_page_id_' t0 = root_page_id_' t"
        by auto
      from Suc.IH[OF rest[unfolded c(1)]] c show ?thesis
        by auto
    next
      case (HEADER_PAGE h)
      with Some Suc.prems show ?thesis by simp
    next
      case INVALID_INDEX_PAGE
      with Some Suc.prems show ?thesis by simp
    qed
  qed
qed

lemma FindLeafPage_loop_READ:
  "FindLeafPage_loop fuel comparator key leftMost OpType_READ pointer pointer None t
       = Ok (leaf, transaction1, t1) \<Longrightarrow> internal_ids_positive t \<Longrightarrow>
     (\<forall>q. pins t1 q + (if q = pointer then 1 else 0) = pins t q + (if q = leaf then 1 else 0))"
proof (induction fuel arbitrary: pointer t)
  case 0
  then show ?case by simp
next
  case (Suc fuel)
  show ?case
  proof (cases "page_at t pointer")
    case None
    with Suc.prems show ?thesis by simp
  next
    case (Some page)
    show ?thesis
    proof (cases page)
      case (LEAF_PAGE p)
      with Some Suc.prems show ?thesis by auto
    next
      case (INTERNAL_PAGE internalPage)
      with Some Suc.prems(2) have pos: "0 < pointer"
        by (auto simp: internal_ids_positive_def)
      from INTERNAL_PAGE Some Suc.prems obtain "next" pointer1 transaction0 t0 where
        crab: "CrabingProtocalFetchPage next OpType_READ pointer None t
                 = Ok (pointer1, transaction0, t0)"
        and rest: "FindLeafPage_loop fuel comparator key leftMost OpType_READ pointer1 next
                     transaction0 t0 = Ok (leaf, transaction1, t1)"
        by (auto split: result.splits)
      from CrabingProtocalFetchPage_None[OF crab] pos have
        c: "pointer1 = next" "transaction0 = None" "page_at t0 = page_at t"
        "\<forall>q. pins t0 q = pins t q + (if q = next then 1 else 0) - (if q = pointer then 1 else 0)"
        by auto
      from c(3) Suc.prems(2) have "internal_ids_positive t0"
        by (simp add: internal_ids_positive_def)
      from Suc.IH[OF rest[unfolded c(1) c(2)] this] have
        step: "\<forall>q. pins t1 q + (if q = next then 1 else 0) = pins t0 q + (if q = leaf then 1 else 0)" .
      show ?thesis
      proof (intro allI)
        fix q
        from step[rule_format, of q] c(4)[rule_format, of q]
        show "pins t1 q + (if q = pointer then 1 else 0) = pins t q + (if q = leaf then 1 else 0)"
          by simp
      qed
    next
      case (HEADER_PAGE h)
      with Some Suc.prems show ?thesis by simp
    next
      case INVALID_INDEX_PAGE
      with Some Suc.prems show ?thesis by simp
    qed
  qed
qed

lemma FindLeafPage_Some:
  "FindLeafPage fuel comparator key leftMost op (Some txn) t = Ok (leaf, transaction1, t1) \<Longrightarrow>
     transaction1 \<noteq> None
     \<and> (\<forall>q. pins t1 q - held transaction1 q = pins t q - held (Some txn) q)
     \<and> page_at t1 \<subseteq>\<^sub>m page_at t
     \<and> root_page_id_' t1 = root_page_id_' t
     \<and> (leaf = None) = IsEmpty t
     \<and> (\<forall>pointer. leaf = Some pointer \<longrightarrow> (\<exists>p. page_at t1 pointer = Some (LEAF_PAGE p)))"
  by (auto simp: FindLeafPage_def split: if_splits result.splits
      dest!: CrabingProtocalFetchPage_Some FindLeafPage_loop_Some intro: map_le_trans)

lemma FindLeafPage_None:
  "FindLeafPage fuel comparator key leftMost op None t = Ok (leaf, transaction1, t1) \<Longrightarrow>
     transaction1 = None \<and> page_at t1 = page_at t \<and> root_page_id_' t1 = root_page_id_' t
     \<and> (leaf = None) = IsEmpty t
     \<and> (\<forall>pointer. leaf = Some pointer \<longrightarrow> (\<exists>p. page_at t1 pointer = Some (LEAF_PAGE p)))"
  by (auto simp: FindLeafPage_def split: if_splits result.splits
      dest!: CrabingProtocalFetchPage_None FindLeafPage_loop_None)

lemma FindLeafPage_READ:
  assumes "FindLeafPage fuel comparator key leftMost OpType_READ None t
             = Ok (leaf, transaction1, t1)"
    and "internal_ids_positive t"
  shows "pins t1 = (case leaf of None \<Rightarrow> pins t
                    | Some pointer \<Rightarrow> (pins t)(pointer := pins t pointer + 1))"
proof (cases "IsEmpty t")
  case True
  with assms show ?thesis by (auto simp: FindLeafPage_def)
next
  case False
  with assms(1) obtain pointer transaction0 t0 l where
    crab: "CrabingProtocalFetchPage (root_page_id_' t) OpType_READ (- 1) None t
             = Ok (pointer, transaction0, t0)"
    and loop: "FindLeafPage_loop fuel comparator key leftMost OpType_READ pointer
                 (root_page_id_' t0) transaction0 t0 = Ok (l, transaction1, t1)"
    and l: "leaf = Some l"
    by (auto simp: FindLeafPage_def split: result.splits)
  from CrabingProtocalFetchPage_None[OF crab] have
    c: "pointer = root_page_id_' t" "transaction0 = None" "page_at t0 = page_at t"
    "root_page_id_' t0 = root_page_id_' t"
    "\<forall>q. pins t0 q = pins t q + (if q = root_page_id_' t then 1 else 0)"
    by auto
  from c(3) assms(2) have "internal_ids_positive t0"
    by (simp add: internal_ids_positive_def)
  from FindLeafPage_loop_READ[OF loop[unfolded c(1) c(2) c(4), folded c(4)] this]
  have step: "\<forall>q. pins t1 q + (if q = root_page_id_' t0 then 1 else 0)
             = pins t0 q + (if q = l then 1 else 0)" .
  have "pins t1 q = pins t q + (if q = l then 1 else 0)" for q
    using step[rule_format, of q] c(5)[rule_format, of q] unfolding c(4) by simp
  then show ?thesis
    unfolding l by (simp add: fun_eq_iff)
qed

subsection \<open>The point query and the scan\<close>

lemma GetValue_pins:
  assumes run: "GetValue fuel comparator key transaction t = Ok (ret, transaction1, t1)"
    and pos: "internal_ids_positive t"
    and con: "page_ids_consistent t"
    and empty: "\<forall>q. held transaction q = 0"
  shows "pins t1 = pins t \<and> (\<forall>q. held transaction1 q = 0)"
proof (cases "IsEmpty t")
  case True
  with run have "t1 = t" "transaction1 = transaction"
    by (auto simp: GetValue_def FindLeafPage_def)
  with empty show ?thesis by simp
next
  case False
  from run obtain leaf transaction0 t0 where
    find: "FindLeafPage fuel comparator key False OpType_READ transaction t
             = Ok (leaf, transaction0, t0)"
    by (auto simp: GetValue_def split: result.splits)
  show ?thesis
  proof (cases transaction)
    case None
    from FindLeafPage_None[OF find[unfolded None]] False obtain tar p where
      f: "leaf = Some tar" "transaction0 = None" "page_at t0 = page_at t"
      "page_at t0 tar = Some (LEAF_PAGE p)"
      by auto
    from FindLeafPage_READ[OF find[unfolded None] pos] f(1)
    have p0: "pins t0 = (pins t)(tar := pins t tar + 1)" by simp
    from con f(3) f(4) have id: "page_id_' p = tar"
      by (auto dest: consistent_page_at)
    from run find f id obtain r where
      "FreePagesInTransaction False None tar t0 = Ok (transaction1, t1)"
      by (auto simp: GetValue_def split: result.splits)
    from FreePagesInTransaction_None[OF this] p0 show ?thesis
      by (auto simp: held_def)
  next
    case (Some txn)
    from FindLeafPage_Some[OF find[unfolded Some]] False obtain tar p txn0 where
      f: "leaf = Some tar" "transaction0 = Some txn0"
      "\<forall>q. pins t0 q - held (Some txn0) q = pins t q - held (Some txn) q"
      "page_at t0 tar = Some (LEAF_PAGE p)"
      by auto
    from run find f obtain r where
      "FreePagesInTransaction False (Some txn0) (page_id_' p) t0 = Ok (transaction1, t1)"
      by (auto simp: GetValue_def split: result.splits)
    from FreePagesInTransaction_Some[OF this] obtain txn1 where
      g: "transaction1 = Some txn1" "page_set_' txn1 = []"
      "pins t1 = (\<lambda>q. pins t0 q - held (Some txn0) q)"
      by auto
    from g(3) f(3) empty Some have "pins t1 = pins t" by (simp add: fun_eq_iff)
    with g show ?thesis by (simp add: held_def)
  qed
qed

lemma leaf_of_Ok:
  "leaf_of t leaf = Ok p \<Longrightarrow> \<exists>l. leaf = Some l \<and> page_at t l = Some (LEAF_PAGE p)"
  by (simp add: leaf_of_def split: option.splits Page.splits)

lemma UnlockAndUnPin_pins:
  assumes run: "UnlockAndUnPin it t = Ok t1" and con: "page_ids_consistent t"
  shows "(\<exists>l. leaf_' it = Some l \<and> pins t1 = (pins t)(l := pins t l - 1))
     \<and> page_at t1 = page_at t"
proof -
  from run obtain p where p: "leaf_of t (leaf_' it) = Ok p"
    by (simp add: UnlockAndUnPin_def split: result.splits)
  from leaf_of_Ok[OF p] obtain l where l: "leaf_' it = Some l" "page_at t l = Some (LEAF_PAGE p)"
    by blast
  from consistent_page_at[OF con l(2)] have id: "page_id_' p = l" by simp
  from run p id obtain page u where
    f: "Tree_FetchPage t l = Ok (page, u)" and t1: "t1 = unpin (unpin u l False) l False"
    by (auto simp: UnlockAndUnPin_def split: result.splits)
  from Tree_FetchPage_pins[OF f] have "pins u = (pins t)(l := pins t l + 1)" "page_at u = page_at t"
    by simp_all
  with t1 l(1) show ?thesis by (simp add: fun_eq_iff)
qed

lemma Iterator_next_pins:
  assumes run: "Iterator_next it t = Ok (it1, t1)" and con: "page_ids_consistent t"
  shows "page_at t1 = page_at t
     \<and> (\<forall>q. pins t1 q - (if leaf_' it1 = Some q then 1 else 0)
            = pins t q - (if leaf_' it = Some q then 1 else 0))"
proof -
  define it0 where "it0 = it\<lparr>index_' := index_' it + 1\<rparr>"
  have l0: "leaf_' it0 = leaf_' it" by (simp add: it0_def)
  from run obtain p where p: "leaf_of t (leaf_' it0) = Ok p"
    by (auto simp: Iterator_next_def Let_def it0_def split: result.splits)
  show ?thesis
  proof (cases "index_' it0 \<ge> GetSize p")
    case False
    with run p show ?thesis
      by (auto simp: Iterator_next_def Let_def it0_def)
  next
    case True
    with run p obtain u where u: "UnlockAndUnPin it0 t = Ok u"
      by (auto simp: Iterator_next_def Let_def it0_def split: result.splits)
    from UnlockAndUnPin_pins[OF u con] l0 obtain l where
      l: "leaf_' it = Some l" "pins u = (pins t)(l := pins t l - 1)" "page_at u = page_at t"
      by auto
    show ?thesis
    proof (cases "next_page_id_' p = INVALID_PAGE_ID")
      case True
      with run p u \<open>index_' it0 \<ge> GetSize p\<close> have "it1 = it0\<lparr>leaf_' := None\<rparr>" "t1 = u"
        by (auto simp: Iterator_next_def Let_def it0_def)
      with l show ?thesis by auto
    next
      case False
      with run p u \<open>index_' it0 \<ge> GetSize p\<close> obtain page where
        f: "Tree_FetchPage u (next_page_id_' p) = Ok (page, t1)"
        and i: "it1 = it0\<lparr>leaf_' := Some (next_page_id_' p), index_' := 0\<rparr>"
        by (auto simp: Iterator_next_def Let_def it0_def split: result.splits)
      from Tree_FetchPage_pins[OF f] l i show ?thesis by auto
    qed
  qed
qed

lemma advance_to_end_pins:
  "advance_to_end steps it t = Ok t1 \<Longrightarrow> page_ids_consistent t \<Longrightarrow>
     page_at t1 = page_at t
     \<and> (\<forall>q. pins t1 q = pins t q - (if leaf_' it = Some q then 1 else 0))"
proof (induction steps arbitrary: it t)
  case 0
  then show ?case by (auto simp: isEnd_def split: if_splits)
next
  case (Suc steps)
  show ?case
  proof (cases "isEnd it")
    case True
    with Suc.prems show ?thesis by (auto simp: isEnd_def)
  next
    case False
    with Suc.prems(1) obtain it0 t0 where
      n: "Iterator_next it t = Ok (it0, t0)" and r: "advance_to_end steps it0 t0 = Ok t1"
      by (auto split: result.splits)
    note a = Iterator_next_pins[OF n Suc.prems(2)]
    from consistent_cong[OF a[THEN conjunct1]] Suc.prems(2) have "page_ids_consistent t0"
      by simp
    note b = Suc.IH[OF r this]
    show ?thesis
    proof (intro conjI allI)
      from a[THEN conjunct1] b[THEN conjunct1] show "page_at t1 = page_at t" by simp
    next
      fix q
      from a[THEN conjunct2, rule_format, of q] b[THEN conjunct2, rule_format, of q]
      show "pins t1 q = pins t q - (if leaf_' it = Some q then 1 else 0)" by linarith
    qed
  qed
qed

lemma Begin_pins:
  assumes run: "Begin fuel comparator useless t = Ok (it, t1)" and pos: "internal_ids_positive t"
  shows "page_at t1 = page_at t
     \<and> (\<forall>q. pins t1 q = pins t q + (if leaf_' it = Some q then 1 else 0))"
proof -
  from run obtain leaf transaction1 where
    f: "FindLeafPage fuel comparator useless True OpType_READ None t = Ok (leaf, transaction1, t1)"
    and it: "leaf_' it = leaf"
    by (auto simp: Begin_def new_IndexIterator_def split: result.splits)
  from FindLeafPage_None[OF f] FindLeafPage_READ[OF f pos] it show ?thesis
    by (cases leaf) simp_all
qed

lemma Begin_key_pins:
  assumes run: "Begin_key fuel comparator key t = Ok (it, t1)" and pos: "internal_ids_positive t"
  shows "page_at t1 = page_at t
     \<and> (\<forall>q. pins t1 q = pins t q + (if leaf_' it = Some q then 1 else 0))"
proof -
  from run obtain leaf transaction1 where
    f: "FindLeafPage fuel comparator key False OpType_READ None t = Ok (leaf, transaction1, t1)"
    and it: "leaf_' it = leaf"
    by (auto simp: Begin_key_def new_IndexIterator_def split: result.splits option.splits)
  from FindLeafPage_None[OF f] FindLeafPage_READ[OF f pos] it show ?thesis
    by (cases leaf) simp_all
qed

lemma scan_from_Begin_pins:
  assumes "scan_from_Begin fuel steps comparator useless t = Ok t1"
    and "internal_ids_positive t" and "page_ids_consistent t"
  shows "pins t1 = pins t"
proof -
  from assms(1) obtain it t0 where
    b: "Begin fuel comparator useless t = Ok (it, t0)" and a: "advance_to_end steps it t0 = Ok t1"
    by (auto simp: scan_from_Begin_def split: result.splits)
  note x = Begin_pins[OF b assms(2)]
  from consistent_cong[OF x[THEN conjunct1]] assms(3) have "page_ids_consistent t0" by simp
  note y = advance_to_end_pins[OF a this]
  have "pins t1 q = pins t q" for q
    using x[THEN conjunct2, rule_format, of q] y[THEN conjunct2, rule_format, of q] by linarith
  then show ?thesis by (simp add: fun_eq_iff)
qed

lemma scan_from_Begin_key_pins:
  assumes "scan_from_Begin_key fuel steps comparator key t = Ok t1"
    and "internal_ids_positive t" and "page_ids_consistent t"
  shows "pins t1 = pins t"
proof -
  from assms(1) obtain it t0 where
    b: "Begin_key fuel comparator key t = Ok (it, t0)" and a: "advance_to_end steps it t0 = Ok t1"
    by (auto simp: scan_from_Begin_key_def split: result.splits)
  note x = Begin_key_pins[OF b assms(2)]
  from consistent_cong[OF x[THEN conjunct1]] assms(3) have "page_ids_consistent t0" by simp
  note y = advance_to_end_pins[OF a this]
  have "pins t1 q = pins t q" for q
    using x[THEN conjunct2, rule_format, of q] y[THEN conjunct2, rule_format, of q] by linarith
  then show ?thesis by (simp add: fun_eq_iff)
qed

subsection \<open>Page ids under the page functions\<close>

lemma page_id_Leaf_Init [simp]: "page_id_' (Leaf_Init max_size page_id parent_id) = page_id"
  by (simp add: Leaf_Init_def)

lemma page_id_Internal_Init [simp]: "page_id_' (Internal_Init max_size page_id parent_id) = page_id"
  by (simp add: Internal_Init_def)

lemma page_id_Leaf_Insert: "Leaf_Insert p key value comparator = Ok p1 \<Longrightarrow> page_id_' p1 = page_id_' p"
  by (auto simp: Leaf_Insert_def split: option.splits if_splits)

lemma page_id_RemoveAndDeleteRecord:
  "RemoveAndDeleteRecord p key comparator = Ok p1 \<Longrightarrow> page_id_' p1 = page_id_' p"
  by (auto simp: RemoveAndDeleteRecord_def split: option.splits if_splits result.splits)

lemma page_id_Leaf_MoveHalfTo:
  "Leaf_MoveHalfTo p r = Ok (p1, r1) \<Longrightarrow> page_id_' p1 = page_id_' p \<and> page_id_' r1 = page_id_' r"
  by (auto simp: Leaf_MoveHalfTo_def Let_def split: if_splits)

lemma page_id_Leaf_MoveAllTo:
  "Leaf_MoveAllTo p r = (p1, r1) \<Longrightarrow> page_id_' p1 = page_id_' p \<and> page_id_' r1 = page_id_' r"
  by (auto simp: Leaf_MoveAllTo_def)

lemma page_id_CopyLastFrom: "CopyLastFrom p item = Ok p1 \<Longrightarrow> page_id_' p1 = page_id_' p"
  by (auto simp: CopyLastFrom_def split: if_splits)

lemma page_id_SetKeyAt: "SetKeyAt p index key = Ok p1 \<Longrightarrow> page_id_' p1 = page_id_' p"
  by (auto simp: SetKeyAt_def split: if_splits)

lemma page_id_PopulateNewRoot [simp]:
  "page_id_' (PopulateNewRoot p old_value new_key new_value) = page_id_' p"
  by (simp add: PopulateNewRoot_def)

lemma page_id_InsertNodeAfter [simp]:
  "page_id_' (InsertNodeAfter p old_value new_key new_value) = page_id_' p"
  by (simp add: InsertNodeAfter_def Let_def)

lemma page_id_Internal_Remove: "Internal_Remove p index = Ok p1 \<Longrightarrow> page_id_' p1 = page_id_' p"
  by (auto simp: Internal_Remove_def split: if_splits)

lemma page_id_RemoveAndReturnOnlyChild:
  "RemoveAndReturnOnlyChild p = Ok (child, p1) \<Longrightarrow> page_id_' p1 = page_id_' p"
  by (auto simp: RemoveAndReturnOnlyChild_def split: result.splits)

lemma page_id_ok_SetParentPageId:
  "Page_SetParentPageId page parent_id = Ok page1 \<Longrightarrow> page_id_ok q page1 = page_id_ok q page"
  by (auto simp: Page_SetParentPageId_def split: Page.splits)

lemma internal_of_Ok: "internal_of t pointer = Ok p \<Longrightarrow> page_at t pointer = Some (INTERNAL_PAGE p)"
  by (simp add: internal_of_def split: option.splits Page.splits)

lemma leaf_at_Ok: "leaf_at t pointer = Ok p \<Longrightarrow> page_at t pointer = Some (LEAF_PAGE p)"
  by (simp add: leaf_at_def leaf_of_def split: option.splits Page.splits)

lemma deref_Ok: "deref t pointer = Ok page \<Longrightarrow> page_at t pointer = Some page"
  by (simp add: deref_def split: option.splits)

lemma internal_of_id:
  "internal_of t pointer = Ok p \<Longrightarrow> page_ids_consistent t \<Longrightarrow> page_id_' p = pointer"
  by (auto dest!: internal_of_Ok dest: consistent_page_at)

lemma leaf_at_id:
  "leaf_at t pointer = Ok p \<Longrightarrow> page_ids_consistent t \<Longrightarrow> page_id_' p = pointer"
  by (auto dest!: leaf_at_Ok dest: consistent_page_at)

lemma pins_root_update [simp]: "pins (t\<lparr>root_page_id_' := r\<rparr>) = pins t"
  by (simp add: pins_def)

lemma page_at_root_update [simp]: "page_at (t\<lparr>root_page_id_' := r\<rparr>) = page_at t"
  by (simp add: page_at_def fun_eq_iff)

lemma consistent_root_update [simp]:
  "page_ids_consistent (t\<lparr>root_page_id_' := r\<rparr>) = page_ids_consistent t"
  by (simp add: page_ids_consistent_def)

lemma consistent_set_internal:
  "page_ids_consistent t \<Longrightarrow> page_id_' p = pointer \<Longrightarrow>
     page_ids_consistent (set_page t pointer (INTERNAL_PAGE p))"
  by (simp add: consistent_set_page)

lemma consistent_set_leaf:
  "page_ids_consistent t \<Longrightarrow> page_id_' p = pointer \<Longrightarrow>
     page_ids_consistent (set_page t pointer (LEAF_PAGE p))"
  by (simp add: consistent_set_page)

lemma Tree_FetchPage_consistent:
  "Tree_FetchPage t page_id = Ok (page, t1) \<Longrightarrow> page_ids_consistent t \<Longrightarrow>
     page_ids_consistent t1 \<and> page_id_ok page_id page"
  using Tree_FetchPage_Ok[of t page_id page t1] by (auto dest: consistent_page_at)

subsection \<open>Insertion\<close>

lemma reparent_pins:
  "reparent children parent_id t = Ok t1 \<Longrightarrow> page_ids_consistent t \<Longrightarrow>
     pins t1 = pins t \<and> page_ids_consistent t1"
proof (induction children arbitrary: t)
  case Nil
  then show ?case by simp
next
  case (Cons child children)
  from Cons.prems(1) obtain page u page1 where
    f: "Tree_FetchPage t child = Ok (page, u)"
    and s: "Page_SetParentPageId page parent_id = Ok page1"
    and r: "reparent children parent_id (unpin (set_page u child page1) child True) = Ok t1"
    by (auto split: result.splits)
  from Tree_FetchPage_consistent[OF f Cons.prems(2)] page_id_ok_SetParentPageId[OF s]
  have c: "page_ids_consistent (unpin (set_page u child page1) child True)"
    by (simp add: consistent_set_page)
  from Tree_FetchPage_pins[OF f]
  have p: "pins (unpin (set_page u child page1) child True) = pins t"
    by (simp add: fun_eq_iff)
  from Cons.IH[OF r c, unfolded p] show ?case .
qed

lemma Internal_MoveHalfTo_pins:
  assumes run: "Internal_MoveHalfTo node recipient t = Ok t1" and con: "page_ids_consistent t"
  shows "pins t1 = pins t \<and> page_ids_consistent t1"
proof -
  from run obtain p r where p: "internal_of t node = Ok p" and r: "internal_of t recipient = Ok r"
    by (auto simp: Internal_MoveHalfTo_def split: result.splits)
  define copyIdx where "copyIdx = nat ((max_size_' p + 1) div 2)"
  define t2 where "t2 = set_page (set_page t node (INTERNAL_PAGE (p\<lparr>array := take copyIdx (array p)\<rparr>)))
            recipient (INTERNAL_PAGE (r\<lparr>array := drop copyIdx (array p)\<rparr>))"
  from run p r have re: "reparent (map snd (drop copyIdx (array p))) recipient t2 = Ok t1"
    by (auto simp: Internal_MoveHalfTo_def Let_def copyIdx_def t2_def split: if_splits)
  from internal_of_id[OF p con] internal_of_id[OF r con] con have "page_ids_consistent t2"
    unfolding t2_def by (intro consistent_set_internal) simp_all
  from reparent_pins[OF re this] show ?thesis by (simp add: t2_def)
qed

lemma Split_pins:
  assumes run: "Split node transaction t = Ok (newPageId, transaction1, t1)"
    and con: "page_ids_consistent t"
  shows "transaction \<noteq> None \<and> transaction1 \<noteq> None
     \<and> (\<forall>q. pins t1 q - held transaction1 q = pins t q - held transaction q)
     \<and> page_ids_consistent t1"
proof -
  obtain n u where new: "Tree_NewPage t = (n, u)" by (cases "Tree_NewPage t")
  from run new obtain txn where txn: "transaction = Some txn"
    by (cases transaction) (auto simp: Split_def)
  from Tree_NewPage_eq[OF new] con have
    u: "pins u = (pins t)(n := pins t n + 1)" "page_ids_consistent u" by simp_all
  from run new txn obtain page where page: "deref u node = Ok page"
    by (auto simp: Split_def Let_def split: result.splits)
  have tr: "transaction1 = AddIntoPageSet (Some txn) n \<and> newPageId = n"
    using run new txn page
    by (auto simp: Split_def Let_def split: result.splits Page.splits)
  have ex: "pins u q - held (AddIntoPageSet (Some txn) n) q = pins t q - held (Some txn) q" for q
    by (simp add: u(1) held_def AddIntoPageSet_def)
  show ?thesis
  proof (cases page)
    case (LEAF_PAGE p)
    from run new txn page LEAF_PAGE obtain p1 newNode where
      m: "Leaf_MoveHalfTo p (Leaf_Init (leaf_max_size u) n (parent_page_id_' p)) = Ok (p1, newNode)"
      and t1: "t1 = set_page (set_page u n (LEAF_PAGE newNode)) node (LEAF_PAGE p1)"
      by (auto simp: Split_def Let_def split: result.splits)
    from consistent_page_at[OF u(2) deref_Ok[OF page]] LEAF_PAGE have "page_id_' p = node" by simp
    with page_id_Leaf_MoveHalfTo[OF m] u(2) have "page_ids_consistent t1"
      unfolding t1 by (intro consistent_set_leaf) simp_all
    with ex tr txn t1 show ?thesis by (simp add: AddIntoPageSet_def)
  next
    case (INTERNAL_PAGE p)
    from run new txn page INTERNAL_PAGE have
      m: "Internal_MoveHalfTo node n
            (set_page u n (INTERNAL_PAGE (Internal_Init (internal_max_size u) n (parent_page_id_' p))))
          = Ok t1"
      by (auto simp: Split_def Let_def split: result.splits)
    from u(2) have "page_ids_consistent
        (set_page u n (INTERNAL_PAGE (Internal_Init (internal_max_size u) n (parent_page_id_' p))))"
      by (intro consistent_set_internal) simp_all
    from Internal_MoveHalfTo_pins[OF m this] ex tr txn show ?thesis
      by (simp add: AddIntoPageSet_def)
  next
    case (HEADER_PAGE h)
    with run new txn page show ?thesis by (auto simp: Split_def Let_def)
  next
    case INVALID_INDEX_PAGE
    with run new txn page show ?thesis by (auto simp: Split_def Let_def)
  qed
qed

lemma StartNewTree_pins:
  assumes run: "StartNewTree comparator key value t = Ok t1" and con: "page_ids_consistent t"
  shows "pins t1 = pins t \<and> page_ids_consistent t1"
proof -
  obtain n u where new: "Tree_NewPage t = (n, u)" by (cases "Tree_NewPage t")
  define t2 where "t2 = (set_page u n (LEAF_PAGE (Leaf_Init (leaf_max_size u) n INVALID_PAGE_ID)))
                          \<lparr>root_page_id_' := n\<rparr>"
  from run new obtain t3 root1 root2 where
    up: "UpdateRootPageId True t2 = Ok t3" and l: "leaf_at t3 n = Ok root1"
    and i: "Leaf_Insert root1 key value comparator = Ok root2"
    and t1: "t1 = unpin (set_page t3 n (LEAF_PAGE root2)) n True"
    by (auto simp: StartNewTree_def Let_def t2_def split: result.splits)
  from Tree_NewPage_eq[OF new] con have
    u: "pins u = (pins t)(n := pins t n + 1)" "page_ids_consistent u" by simp_all
  from u(2) have "page_ids_consistent t2"
    unfolding t2_def by (simp add: consistent_set_leaf)
  with UpdateRootPageId_Ok[OF up] have t3: "pins t3 = pins t2" "page_ids_consistent t3" by simp_all
  from leaf_at_id[OF l t3(2)] page_id_Leaf_Insert[OF i] t3(2) have "page_ids_consistent t1"
    unfolding t1 by (simp add: consistent_set_leaf)
  moreover from t3(1) u(1) have "pins t1 = pins t"
    unfolding t1 t2_def by (simp add: fun_eq_iff)
  ultimately show ?thesis by simp
qed

lemma consistent_SetParentPageId:
  assumes con: "page_ids_consistent t" and d: "deref t pointer = Ok page"
    and s: "Page_SetParentPageId page parent_id = Ok page1"
  shows "page_ids_consistent (set_page t pointer page1)"
proof -
  from consistent_page_at[OF con deref_Ok[OF d]] page_id_ok_SetParentPageId[OF s]
  have "page_id_ok pointer page1" by simp
  with con show ?thesis by (rule consistent_set_page)
qed

lemma InsertIntoParent_root_pins:
  assumes new: "Tree_NewPage t = (rootId, t0)"
    and d1: "deref t2 old_node = Ok oldPage1"
    and s1: "Page_SetParentPageId oldPage1 rootId = Ok oldPage2"
    and d2: "deref (set_page t2 old_node oldPage2) new_node = Ok newPage1"
    and s2: "Page_SetParentPageId newPage1 rootId = Ok newPage2"
    and up: "UpdateRootPageId False (set_page (set_page t2 old_node oldPage2) new_node newPage2) = Ok t4"
    and i: "internal_of t4 rootId = Ok newRoot1"
    and t2: "t2 = set_page (t0\<lparr>root_page_id_' := rootId\<rparr>) rootId (INTERNAL_PAGE newRoot)"
    and id: "page_id_' newRoot = rootId"
    and con: "page_ids_consistent t"
  shows "pins (unpin t4 (page_id_' newRoot1) True) = pins t
     \<and> page_ids_consistent (unpin t4 (page_id_' newRoot1) True)"
proof -
  from Tree_NewPage_eq[OF new] con have
    t0: "pins t0 = (pins t)(rootId := pins t rootId + 1)" "page_ids_consistent t0" by simp_all
  from t0(2) id have c2: "page_ids_consistent t2"
    unfolding t2 by (simp add: consistent_set_internal)
  note c3 = consistent_SetParentPageId[OF c2 d1 s1]
  note c4 = consistent_SetParentPageId[OF c3 d2 s2]
  from UpdateRootPageId_Ok[OF up] c4 have
    t4: "pins t4 = pins t0" "page_ids_consistent t4" by (simp_all add: t2)
  from internal_of_id[OF i t4(2)] have "page_id_' newRoot1 = rootId" .
  with t4 t0(1) show ?thesis by (simp add: fun_eq_iff)
qed

lemma InsertIntoParent_pins:
  "InsertIntoParent fuel old_node key new_node transaction t = Ok (transaction1, t1) \<Longrightarrow>
   page_ids_consistent t \<Longrightarrow>
     (\<forall>q. pins t1 q - held transaction1 q = pins t q - held transaction q)
     \<and> page_ids_consistent t1"
proof (induction fuel arbitrary: old_node key new_node transaction t transaction1 t1)
  case 0
  then show ?case by simp
next
  case (Suc fuel)
  note run = Suc.prems(1) and con = Suc.prems(2)
  from run obtain oldPage parentId oldId newPage newId where
    h: "deref t old_node = Ok oldPage" "Page_GetParentPageId oldPage = Ok parentId"
    "Page_GetPageId oldPage = Ok oldId" "deref t new_node = Ok newPage"
    "Page_GetPageId newPage = Ok newId"
    by (simp split: result.splits)
  show ?case
  proof (cases "parentId = INVALID_PAGE_ID")
    case True
    obtain rootId t0 where new: "Tree_NewPage t = (rootId, t0)" by (cases "Tree_NewPage t")
    define newRoot :: "'a BPlusTreeInternalPage" where
      "newRoot = PopulateNewRoot (Internal_Init (internal_max_size (t0\<lparr>root_page_id_' := rootId\<rparr>))
                    rootId INVALID_PAGE_ID) oldId key newId"
    define t2 where "t2 = set_page (t0\<lparr>root_page_id_' := rootId\<rparr>) rootId (INTERNAL_PAGE newRoot)"
    from run h True new obtain oldPage1 oldPage2 newPage1 newPage2 t4 newRoot1 where
      k: "deref t2 old_node = Ok oldPage1" "Page_SetParentPageId oldPage1 rootId = Ok oldPage2"
      "deref (set_page t2 old_node oldPage2) new_node = Ok newPage1"
      "Page_SetParentPageId newPage1 rootId = Ok newPage2"
      "UpdateRootPageId False (set_page (set_page t2 old_node oldPage2) new_node newPage2) = Ok t4"
      "internal_of t4 rootId = Ok newRoot1"
      and res: "transaction1 = transaction" "t1 = unpin t4 (page_id_' newRoot1) True"
      by (auto simp: Let_def t2_def newRoot_def split: result.splits if_splits prod.splits)
    have "page_id_' newRoot = rootId" by (simp add: newRoot_def)
    from InsertIntoParent_root_pins[OF new k t2_def this con] res show ?thesis by simp
  next
    case False
    from run h False obtain page u1 newPage1 newPage2 parent where
      k: "Tree_FetchPage t parentId = Ok (page, u1)" "deref u1 new_node = Ok newPage1"
      "Page_SetParentPageId newPage1 parentId = Ok newPage2"
      "internal_of (set_page u1 new_node newPage2) parentId = Ok parent"
      by (auto simp: Let_def split: result.splits prod.splits)
    define parent1 where "parent1 = InsertNodeAfter parent oldId key newId"
    define t3 where "t3 = set_page (set_page u1 new_node newPage2) parentId (INTERNAL_PAGE parent1)"
    from Tree_FetchPage_pins[OF k(1)] Tree_FetchPage_consistent[OF k(1) con] have
      u1: "pins u1 = (pins t)(parentId := pins t parentId + 1)" "page_ids_consistent u1"
      by simp_all
    note c2 = consistent_SetParentPageId[OF u1(2) k(2) k(3)]
    from internal_of_id[OF k(4) c2] c2 have c3: "page_ids_consistent t3"
      unfolding t3_def by (intro consistent_set_internal) (simp_all add: parent1_def)
    have p3: "pins t3 = (pins t)(parentId := pins t parentId + 1)"
      by (simp add: t3_def u1(1))
    show ?thesis
    proof (cases "GetSize parent1 > max_size_' parent1")
      case False
      with run h \<open>parentId \<noteq> INVALID_PAGE_ID\<close> k have
        "transaction1 = transaction" "t1 = unpin t3 parentId True"
        by (auto simp: Let_def t3_def parent1_def split: result.splits prod.splits)
      with c3 p3 show ?thesis by simp
    next
      case True
      with run h \<open>parentId \<noteq> INVALID_PAGE_ID\<close> k obtain newLeafPage transactionA t4 splitPage
        separator transaction2 t5 where
        m: "Split parentId transaction t3 = Ok (newLeafPage, transactionA, t4)"
        "InsertIntoParent fuel parentId separator newLeafPage transactionA t4 = Ok (transaction2, t5)"
        and res: "transaction1 = transaction2" "t1 = unpin t5 parentId True"
        by (auto simp: Let_def t3_def parent1_def split: result.splits prod.splits)
      note a = Split_pins[OF m(1) c3]
      from a have c4: "page_ids_consistent t4" by simp
      note b = Suc.IH[OF m(2) c4]
      have "pins t1 q - held transaction1 q = pins t q - held transaction q" for q
        using a[THEN conjunct2, THEN conjunct2, THEN conjunct1, rule_format, of q]
          b[THEN conjunct1, rule_format, of q]
        unfolding res p3 by (simp split: if_splits)
      with b res show ?thesis by simp
    qed
  qed
qed

lemma FreePagesInTransaction_exclusive:
  assumes free: "FreePagesInTransaction True transaction cur t = Ok (transaction1, t1)"
    and ex: "\<forall>q. pins t q - held transaction q = pins t0 q"
    and con: "page_ids_consistent t"
  shows "pins t1 = pins t0 \<and> page_ids_consistent t1 \<and> (\<forall>q. held transaction1 q = 0)"
proof (cases transaction)
  case None
  with free show ?thesis by (auto dest: FreePagesInTransaction_None)
next
  case (Some txn)
  from FreePagesInTransaction_Some[OF free[unfolded Some]] obtain txn1 where
    g: "transaction1 = Some txn1" "page_set_' txn1 = []"
    "pins t1 = (\<lambda>q. pins t q - held (Some txn) q)" "page_at t1 \<subseteq>\<^sub>m page_at t"
    by auto
  from g(3) ex Some have "pins t1 = pins t0" by (simp add: fun_eq_iff)
  with g consistent_map_le[OF con g(4)] show ?thesis by (simp add: held_def)
qed

lemma FindLeafPage_excess:
  assumes find: "FindLeafPage fuel comparator key leftMost op transaction t
                   = Ok (leaf, transaction1, t1)"
    and ne: "\<not> IsEmpty t" and con: "page_ids_consistent t"
  shows "(\<exists>pointer p. leaf = Some pointer \<and> page_at t1 pointer = Some (LEAF_PAGE p))
     \<and> page_ids_consistent t1
     \<and> (transaction = None \<longrightarrow> transaction1 = None)
     \<and> (transaction \<noteq> None \<longrightarrow>
           (\<forall>q. pins t1 q - held transaction1 q = pins t q - held transaction q))"
proof (cases transaction)
  case None
  from FindLeafPage_None[OF find[unfolded None]] ne None con show ?thesis
    by (cases leaf) (auto simp: page_ids_consistent_def)
next
  case (Some txn)
  note f = FindLeafPage_Some[OF find[unfolded Some]]
  from f con have "page_ids_consistent t1" by (auto intro: consistent_map_le)
  with f ne Some show ?thesis by (cases leaf) auto
qed

lemma Split_None [simp]: "Split node None t = Failure NullPointer"
  by (simp add: Split_def split: prod.splits)

lemma InsertIntoLeaf_pins:
  assumes run: "InsertIntoLeaf fuel comparator key value transaction t = Ok (ret, transaction1, t1)"
    and con: "page_ids_consistent t"
    and empty: "\<forall>q. held transaction q = 0"
  shows "pins t1 = pins t \<and> page_ids_consistent t1 \<and> (\<forall>q. held transaction1 q = 0)"
proof -
  from run obtain leaf transaction0 t0 where
    find: "FindLeafPage fuel comparator key False OpType_INSERT transaction t
             = Ok (leaf, transaction0, t0)"
    by (auto simp: InsertIntoLeaf_def split: result.splits)
  from run find obtain leafPage where leaf: "leaf = Some leafPage"
    by (cases leaf) (auto simp: InsertIntoLeaf_def)
  from find leaf have ne: "\<not> IsEmpty t"
    by (auto simp: FindLeafPage_def split: if_splits)
  note f = FindLeafPage_excess[OF find ne con]
  from f have c0: "page_ids_consistent t0" by simp
  from run find leaf obtain p look where
    p: "leaf_at t0 leafPage = Ok p" and look: "Leaf_Lookup p key comparator = Ok look"
    by (auto simp: InsertIntoLeaf_def split: result.splits)
  have txn: "transaction \<noteq> None"
  proof
    assume "transaction = None"
    with f have n: "transaction0 = None" by simp
    from run find leaf p look n show False
      by (auto simp: InsertIntoLeaf_def Let_def
          split: result.splits option.splits if_splits
          dest: FreePagesInTransaction_None)
  qed
  with f empty have e0: "\<forall>q. pins t0 q - held transaction0 q = pins t q" by simp
  show ?thesis
  proof (cases look)
    case (Some v)
    with run find leaf p look have
      "FreePagesInTransaction True transaction0 (- 1) t0 = Ok (transaction1, t1)"
      by (auto simp: InsertIntoLeaf_def split: result.splits)
    from FreePagesInTransaction_exclusive[OF this e0 c0] show ?thesis .
  next
    case None
    with run find leaf p look obtain p1 where ins: "Leaf_Insert p key value comparator = Ok p1"
      by (auto simp: InsertIntoLeaf_def split: result.splits)
    define t2 where "t2 = set_page t0 leafPage (LEAF_PAGE p1)"
    from leaf_at_id[OF p c0] page_id_Leaf_Insert[OF ins] c0 have c2: "page_ids_consistent t2"
      unfolding t2_def by (simp add: consistent_set_leaf)
    have p2: "pins t2 = pins t0" by (simp add: t2_def)
    have "\<exists>transaction3 t4.
            FreePagesInTransaction True transaction3 (- 1) t4 = Ok (transaction1, t1)
            \<and> (\<forall>q. pins t4 q - held transaction3 q = pins t q) \<and> page_ids_consistent t4"
    proof (cases "GetSize p1 > max_size_' p1")
      case False
      with run find leaf p look None ins have
        "FreePagesInTransaction True transaction0 (- 1) t2 = Ok (transaction1, t1)"
        by (auto simp: InsertIntoLeaf_def Let_def t2_def split: result.splits)
      moreover from e0 p2 have "\<forall>q. pins t2 q - held transaction0 q = pins t q" by simp
      ultimately show ?thesis using c2 by blast
    next
      case True
      with run find leaf p look None ins obtain newLeafPage transactionA t3 separator
        transaction3 t4 where
        m: "Split leafPage transaction0 t2 = Ok (newLeafPage, transactionA, t3)"
        "InsertIntoParent fuel leafPage separator newLeafPage transactionA t3 = Ok (transaction3, t4)"
        "FreePagesInTransaction True transaction3 (- 1) t4 = Ok (transaction1, t1)"
        by (auto simp: InsertIntoLeaf_def Let_def t2_def split: result.splits)
      note a = Split_pins[OF m(1) c2]
      from a have c3: "page_ids_consistent t3" by simp
      note b = InsertIntoParent_pins[OF m(2) c3]
      have "pins t4 q - held transaction3 q = pins t q" for q
        using a[THEN conjunct2, THEN conjunct2, THEN conjunct1, rule_format, of q]
          b[THEN conjunct1, rule_format, of q] e0[rule_format, of q]
        unfolding p2 by linarith
      then have "\<forall>q. pins t4 q - held transaction3 q = pins t q" by simp
      with m(3) b show ?thesis by blast
    qed
    then obtain transaction3 t4 where
      "FreePagesInTransaction True transaction3 (- 1) t4 = Ok (transaction1, t1)"
      "\<forall>q. pins t4 q - held transaction3 q = pins t q" "page_ids_consistent t4"
      by blast
    from FreePagesInTransaction_exclusive[OF this] show ?thesis .
  qed
qed

lemma Insert_pins:
  assumes run: "Insert fuel comparator key value transaction t = Ok (ret, transaction1, t1)"
    and con: "page_ids_consistent t"
    and empty: "\<forall>q. held transaction q = 0"
  shows "pins t1 = pins t \<and> page_ids_consistent t1 \<and> (\<forall>q. held transaction1 q = 0)"
proof (cases "IsEmpty t")
  case True
  with run obtain u where "StartNewTree comparator key value t = Ok u" "t1 = u"
    "transaction1 = transaction"
    by (auto simp: Insert_def split: result.splits)
  with StartNewTree_pins[OF this(1) con] empty show ?thesis by simp
next
  case False
  with run have "InsertIntoLeaf fuel comparator key value transaction t = Ok (ret, transaction1, t1)"
    by (simp add: Insert_def)
  from InsertIntoLeaf_pins[OF this con empty] show ?thesis .
qed

subsection \<open>Removal\<close>

lemma fetch_unpin_pins:
  "pins u = (pins t)(page_id := pins t page_id + 1) \<Longrightarrow>
     (pins u)(page_id := pins u page_id - 1) = pins t"
  by (simp add: fun_eq_iff)

lemma Tree_FetchPage_internal:
  assumes f: "Tree_FetchPage t page_id = Ok (INTERNAL_PAGE parent, u)"
    and con: "page_ids_consistent t"
  shows "page_id_' parent = page_id \<and> page_ids_consistent u
     \<and> (pins u)(page_id := pins u page_id - 1) = pins t"
  using Tree_FetchPage_consistent[OF f con] fetch_unpin_pins[of u t page_id]
    Tree_FetchPage_pins[OF f] by simp

lemma Internal_MoveAllTo_pins:
  assumes run: "Internal_MoveAllTo node recipient index_in_parent t = Ok t1"
    and con: "page_ids_consistent t"
  shows "pins t1 = pins t \<and> page_ids_consistent t1"
proof -
  from run obtain p where p: "internal_of t node = Ok p"
    by (auto simp: Internal_MoveAllTo_def split: result.splits)
  from run p obtain parent u1 where
    f: "Tree_FetchPage t (parent_page_id_' p) = Ok (INTERNAL_PAGE parent, u1)"
    by (auto simp: Internal_MoveAllTo_def split: result.splits prod.splits Page.splits)
  define t2 where "t2 = unpin u1 (parent_page_id_' p) False"
  from run p f obtain separator r where
    r: "internal_of t2 recipient = Ok r" and k: "KeyAt parent index_in_parent = Ok separator"
    by (auto simp: Internal_MoveAllTo_def Let_def t2_def split: result.splits)
  define moved where "moved = (case array p of [] \<Rightarrow> []
                                | slot # slots \<Rightarrow> (separator, snd slot) # slots)"
  define t4 where "t4 = set_page (set_page t2 recipient (INTERNAL_PAGE (r\<lparr>array := array r @ moved\<rparr>)))
                          node (INTERNAL_PAGE (p\<lparr>array := []\<rparr>))"
  from run p f r k have re: "reparent (map snd moved) recipient t4 = Ok t1"
    by (simp add: Internal_MoveAllTo_def Let_def t2_def t4_def moved_def)
  note a = Tree_FetchPage_internal[OF f con]
  from a have c2: "page_ids_consistent t2" and p2: "pins t2 = pins t" by (simp_all add: t2_def)
  from internal_of_id[OF r c2] internal_of_id[OF p con] c2 have "page_ids_consistent t4"
    unfolding t4_def by (intro consistent_set_internal) simp_all
  from reparent_pins[OF re this] p2 show ?thesis by (simp add: t4_def)
qed

lemma Internal_MoveFirstToEndOf_pins:
  assumes run: "Internal_MoveFirstToEndOf neighbor recipient t = Ok t1"
    and con: "page_ids_consistent t"
  shows "pins t1 = pins t \<and> page_ids_consistent t1"
proof -
  from run obtain p where p: "internal_of t neighbor = Ok p"
    by (auto simp: Internal_MoveFirstToEndOf_def split: result.splits)
  from run p obtain k0 c0 k1 c1 slots where a: "array p = (k0, c0) # (k1, c1) # slots"
    by (auto simp: Internal_MoveFirstToEndOf_def split: list.splits)
  from run p a obtain parent u1 where
    f: "Tree_FetchPage t (parent_page_id_' p) = Ok (INTERNAL_PAGE parent, u1)"
    by (auto simp: Internal_MoveFirstToEndOf_def split: result.splits prod.splits Page.splits)
  from run p a f obtain separator parent1 where
    s: "SetKeyAt parent (ValueIndex parent (page_id_' p)) k1 = Ok parent1"
    and k: "KeyAt parent (ValueIndex parent (page_id_' p)) = Ok separator"
    by (auto simp: Internal_MoveFirstToEndOf_def split: result.splits)
  define t3 where "t3 = set_page (unpin (set_page u1 (parent_page_id_' p) (INTERNAL_PAGE parent1))
                                    (parent_page_id_' p) True)
                          neighbor (INTERNAL_PAGE (p\<lparr>array := (k1, c1) # slots\<rparr>))"
  from run p a f s k obtain r where r: "internal_of t3 recipient = Ok r"
    and re: "reparent [c0] recipient
               (set_page t3 recipient (INTERNAL_PAGE (r\<lparr>array := array r @ [(separator, c0)]\<rparr>)))
             = Ok t1"
    by (auto simp: Internal_MoveFirstToEndOf_def Let_def t3_def split: result.splits)
  note b = Tree_FetchPage_internal[OF f con]
  from b page_id_SetKeyAt[OF s] internal_of_id[OF p con] have c3: "page_ids_consistent t3"
    unfolding t3_def by (simp add: consistent_set_internal)
  from b have p3: "pins t3 = pins t" by (simp add: t3_def)
  from internal_of_id[OF r c3] c3 have
    "page_ids_consistent (set_page t3 recipient (INTERNAL_PAGE (r\<lparr>array := array r @ [(separator, c0)]\<rparr>)))"
    by (intro consistent_set_internal) simp_all
  from reparent_pins[OF re this] p3 show ?thesis by simp
qed

lemma Internal_MoveLastToFrontOf_pins:
  assumes run: "Internal_MoveLastToFrontOf neighbor recipient parent_index t = Ok t1"
    and con: "page_ids_consistent t"
  shows "pins t1 = pins t \<and> page_ids_consistent t1"
proof -
  from run obtain p where p: "internal_of t neighbor = Ok p" and ne: "array p \<noteq> []"
    by (auto simp: Internal_MoveLastToFrontOf_def split: result.splits if_splits)
  obtain k_last c_last where l: "last (array p) = (k_last, c_last)" by (cases "last (array p)")
  define u where "u = set_page t neighbor (INTERNAL_PAGE (p\<lparr>array := butlast (array p)\<rparr>))"
  from run p ne l obtain r where r: "internal_of u recipient = Ok r"
    by (auto simp: Internal_MoveLastToFrontOf_def Let_def u_def split: result.splits)
  from run p ne l r obtain parent u2 where
    f: "Tree_FetchPage u (parent_page_id_' r) = Ok (INTERNAL_PAGE parent, u2)"
    by (auto simp: Internal_MoveLastToFrontOf_def Let_def u_def
        split: result.splits prod.splits Page.splits)
  from run p ne l r f obtain separator parent1 where
    s: "SetKeyAt parent parent_index k_last = Ok parent1"
    and k: "KeyAt parent parent_index = Ok separator"
    by (auto simp: Internal_MoveLastToFrontOf_def Let_def u_def split: result.splits)
  define t3 where "t3 = unpin (set_page u2 (parent_page_id_' r) (INTERNAL_PAGE parent1))
                          (parent_page_id_' r) True"
  define slots where "slots = (case array r of [] \<Rightarrow> []
                                | slot # rest \<Rightarrow> (separator, snd slot) # rest)"
  from run p ne l r f s k have
    re: "reparent [c_last] recipient
           (set_page t3 recipient (INTERNAL_PAGE (r\<lparr>array := (k_last, c_last) # slots\<rparr>))) = Ok t1"
    by (simp add: Internal_MoveLastToFrontOf_def Let_def u_def t3_def slots_def)
  from internal_of_id[OF p con] con have cu: "page_ids_consistent u"
    unfolding u_def by (simp add: consistent_set_internal)
  note b = Tree_FetchPage_internal[OF f cu]
  from b page_id_SetKeyAt[OF s] have c3: "page_ids_consistent t3"
    unfolding t3_def by (simp add: consistent_set_internal)
  from b have p3: "pins t3 = pins t" by (simp add: t3_def u_def)
  from internal_of_id[OF r cu] c3 have
    "page_ids_consistent (set_page t3 recipient (INTERNAL_PAGE (r\<lparr>array := (k_last, c_last) # slots\<rparr>)))"
    by (intro consistent_set_internal) simp_all
  from reparent_pins[OF re this] p3 show ?thesis by simp
qed

lemma Leaf_MoveFirstToEndOf_pins:
  assumes run: "Leaf_MoveFirstToEndOf neighbor recipient t = Ok t1"
    and con: "page_ids_consistent t"
  shows "pins t1 = pins t \<and> page_ids_consistent t1"
proof -
  from run obtain p pair where p: "leaf_at t neighbor = Ok p" and g: "GetItem p 0 = Ok pair"
    by (auto simp: Leaf_MoveFirstToEndOf_def split: result.splits)
  define p1 where "p1 = p\<lparr>array := tl (array p)\<rparr>"
  define u where "u = set_page t neighbor (LEAF_PAGE p1)"
  from run p g obtain r r1 where r: "leaf_at u recipient = Ok r"
    and c: "CopyLastFrom r pair = Ok r1"
    by (auto simp: Leaf_MoveFirstToEndOf_def Let_def u_def p1_def split: result.splits)
  define t2 where "t2 = set_page u recipient (LEAF_PAGE r1)"
  from run p g r c obtain parent t3 where
    f: "Tree_FetchPage t2 (parent_page_id_' p1) = Ok (INTERNAL_PAGE parent, t3)"
    by (auto simp: Leaf_MoveFirstToEndOf_def Let_def u_def p1_def t2_def
        split: result.splits prod.splits Page.splits)
  from run p g r c f obtain parent1 where
    s: "SetKeyAt parent (ValueIndex parent (page_id_' p1))
          (case array p1 of [] \<Rightarrow> fst pair | slot # slots \<Rightarrow> fst slot) = Ok parent1"
    and t1: "t1 = unpin (set_page t3 (parent_page_id_' p1) (INTERNAL_PAGE parent1))
                    (parent_page_id_' p1) True"
    by (auto simp: Leaf_MoveFirstToEndOf_def Let_def u_def p1_def t2_def split: result.splits)
  from leaf_at_id[OF p con] con have cu: "page_ids_consistent u"
    unfolding u_def by (simp add: consistent_set_leaf p1_def)
  from leaf_at_id[OF r cu] page_id_CopyLastFrom[OF c] cu have c2: "page_ids_consistent t2"
    unfolding t2_def by (simp add: consistent_set_leaf)
  note b = Tree_FetchPage_internal[OF f c2]
  from b page_id_SetKeyAt[OF s] have "page_ids_consistent t1"
    unfolding t1 by (simp add: consistent_set_internal)
  moreover from b have "pins t1 = pins t" by (simp add: t1 t2_def u_def)
  ultimately show ?thesis by simp
qed

lemma CopyFirstFrom_pins:
  assumes run: "CopyFirstFrom recipient item parentIndex t = Ok t1"
    and con: "page_ids_consistent t"
  shows "pins t1 = pins t \<and> page_ids_consistent t1"
proof -
  from run obtain r where r: "leaf_at t recipient = Ok r"
    and room: "GetSize r + 1 < max_size_' r"
    by (auto simp: CopyFirstFrom_def split: result.splits if_splits)
  define r1 where "r1 = r\<lparr>array := item # array r\<rparr>"
  define u where "u = set_page t recipient (LEAF_PAGE r1)"
  from run r room obtain parent t2 where
    f: "Tree_FetchPage u (parent_page_id_' r1) = Ok (INTERNAL_PAGE parent, t2)"
    by (auto simp: CopyFirstFrom_def Let_def u_def r1_def
        split: result.splits prod.splits Page.splits)
  from run r room f obtain parent1 where
    s: "SetKeyAt parent parentIndex (fst item) = Ok parent1"
    and t1: "t1 = unpin (set_page t2 (parent_page_id_' r1) (INTERNAL_PAGE parent1))
                    (parent_page_id_' r1) True"
    by (auto simp: CopyFirstFrom_def Let_def u_def r1_def split: result.splits)
  from leaf_at_id[OF r con] con have cu: "page_ids_consistent u"
    unfolding u_def by (simp add: consistent_set_leaf r1_def)
  note b = Tree_FetchPage_internal[OF f cu]
  from b page_id_SetKeyAt[OF s] have "page_ids_consistent t1"
    unfolding t1 by (simp add: consistent_set_internal)
  moreover from b have "pins t1 = pins t" by (simp add: t1 u_def)
  ultimately show ?thesis by simp
qed

lemma Leaf_MoveLastToFrontOf_pins:
  assumes run: "Leaf_MoveLastToFrontOf neighbor recipient parentIndex t = Ok t1"
    and con: "page_ids_consistent t"
  shows "pins t1 = pins t \<and> page_ids_consistent t1"
proof -
  from run obtain p pair where p: "leaf_at t neighbor = Ok p"
    and c: "CopyFirstFrom recipient pair parentIndex
              (set_page t neighbor (LEAF_PAGE (p\<lparr>array := butlast (array p)\<rparr>))) = Ok t1"
    by (auto simp: Leaf_MoveLastToFrontOf_def split: result.splits)
  from leaf_at_id[OF p con] con have
    "page_ids_consistent (set_page t neighbor (LEAF_PAGE (p\<lparr>array := butlast (array p)\<rparr>)))"
    by (simp add: consistent_set_leaf)
  from CopyFirstFrom_pins[OF c this] show ?thesis by simp
qed

lemma Redistribute_pins:
  assumes run: "Redistribute neighbor_node node index t = Ok t1"
    and con: "page_ids_consistent t"
  shows "pins t1 = pins t \<and> page_ids_consistent t1"
  using run con
  by (auto simp: Redistribute_def split: result.splits Page.splits if_splits
      dest: Leaf_MoveFirstToEndOf_pins Leaf_MoveLastToFrontOf_pins
        Internal_MoveFirstToEndOf_pins Internal_MoveLastToFrontOf_pins)

lemma MoveAllTo_pins:
  assumes run: "MoveAllTo node recipient index t = Ok t1"
    and con: "page_ids_consistent t"
  shows "pins t1 = pins t \<and> page_ids_consistent t1"
proof -
  from run obtain page where d: "deref t node = Ok page"
    by (auto simp: MoveAllTo_def split: result.splits)
  show ?thesis
  proof (cases page)
    case (LEAF_PAGE p)
    with run d obtain r p1 r1 where r: "leaf_at t recipient = Ok r"
      and m: "Leaf_MoveAllTo p r = (p1, r1)"
      and t1: "t1 = set_page (set_page t recipient (LEAF_PAGE r1)) node (LEAF_PAGE p1)"
      by (auto simp: MoveAllTo_def split: result.splits prod.splits)
    from consistent_page_at[OF con deref_Ok[OF d]] LEAF_PAGE have "page_id_' p = node" by simp
    with leaf_at_id[OF r con] page_id_Leaf_MoveAllTo[OF m] con have "page_ids_consistent t1"
      unfolding t1 by (intro consistent_set_leaf) simp_all
    then show ?thesis by (simp add: t1)
  next
    case (INTERNAL_PAGE p)
    with run d have "Internal_MoveAllTo node recipient index t = Ok t1"
      by (simp add: MoveAllTo_def)
    from Internal_MoveAllTo_pins[OF this con] show ?thesis .
  next
    case (HEADER_PAGE h)
    with run d show ?thesis by (simp add: MoveAllTo_def)
  next
    case INVALID_INDEX_PAGE
    with run d show ?thesis by (simp add: MoveAllTo_def)
  qed
qed

lemma pins_calls_update [simp]: "pins (t\<lparr>CoalesceOrRedistribute_calls := cs\<rparr>) = pins t"
  by (simp add: pins_def)

lemma page_at_calls_update [simp]: "page_at (t\<lparr>CoalesceOrRedistribute_calls := cs\<rparr>) = page_at t"
  by (simp add: page_at_def fun_eq_iff)

lemma consistent_calls_update [simp]:
  "page_ids_consistent (t\<lparr>CoalesceOrRedistribute_calls := cs\<rparr>) = page_ids_consistent t"
  by (simp add: page_ids_consistent_def)

lemma held_AddIntoDeletedPageSet:
  "AddIntoDeletedPageSet transaction page_id = Ok transaction1 \<Longrightarrow>
     transaction \<noteq> None \<and> transaction1 \<noteq> None \<and> held transaction1 = held transaction"
  by (auto simp: AddIntoDeletedPageSet_def held_def fun_eq_iff split: option.splits)

lemma AdjustRoot_pins:
  assumes run: "AdjustRoot old_root_node t = Ok (ret, t1)" and con: "page_ids_consistent t"
  shows "pins t1 = pins t \<and> page_ids_consistent t1"
proof -
  from run obtain page where d: "deref t old_root_node = Ok page"
    by (auto simp: AdjustRoot_def split: result.splits)
  show ?thesis
  proof (cases page)
    case (LEAF_PAGE p)
    with run d have "UpdateRootPageId False (t\<lparr>root_page_id_' := INVALID_PAGE_ID\<rparr>) = Ok t1"
      by (auto simp: AdjustRoot_def split: result.splits if_splits)
    from UpdateRootPageId_Ok[OF this] con show ?thesis by simp
  next
    case (INTERNAL_PAGE root)
    show ?thesis
    proof (cases "GetSize root = 1")
      case False
      with run d INTERNAL_PAGE con show ?thesis by (simp add: AdjustRoot_def)
    next
      case True
      with run d INTERNAL_PAGE obtain newRootId root1 u where
        r: "RemoveAndReturnOnlyChild root = Ok (newRootId, root1)"
        and up: "UpdateRootPageId False
                   ((set_page t old_root_node (INTERNAL_PAGE root1))\<lparr>root_page_id_' := newRootId\<rparr>)
                 = Ok u"
        by (auto simp: AdjustRoot_def split: result.splits)
      obtain fetched bpm where fp: "FetchPage (buffer_pool_manager_' u) newRootId = (fetched, bpm)"
        by (cases "FetchPage (buffer_pool_manager_' u) newRootId")
      from run d INTERNAL_PAGE True r up fp obtain page1 newRoot where
        some: "fetched = Some page1" and s: "Page_SetParentPageId page1 INVALID_PAGE_ID = Ok newRoot"
        and t1: "t1 = unpin (set_page (u\<lparr>buffer_pool_manager_' := bpm\<rparr>) newRootId newRoot)
                        newRootId True"
        by (auto simp: AdjustRoot_def split: result.splits option.splits)
      from fp some have f: "Tree_FetchPage u newRootId = Ok (page1, u\<lparr>buffer_pool_manager_' := bpm\<rparr>)"
        by (simp add: Tree_FetchPage_def)
      from consistent_page_at[OF con deref_Ok[OF d]] INTERNAL_PAGE
        page_id_RemoveAndReturnOnlyChild[OF r] con
      have "page_ids_consistent (set_page t old_root_node (INTERNAL_PAGE root1))"
        by (intro consistent_set_internal) simp_all
      with UpdateRootPageId_Ok[OF up] have u: "pins u = pins t" "page_ids_consistent u"
        by simp_all
      from Tree_FetchPage_consistent[OF f u(2)] page_id_ok_SetParentPageId[OF s]
      have "page_ids_consistent t1"
        unfolding t1 by (simp add: consistent_set_page)
      moreover from Tree_FetchPage_pins[OF f] u(1) have "pins t1 = pins t"
        unfolding t1 by (simp add: fun_eq_iff)
      ultimately show ?thesis by simp
    qed
  next
    case (HEADER_PAGE h)
    with run d show ?thesis by (simp add: AdjustRoot_def)
  next
    case INVALID_INDEX_PAGE
    with run d show ?thesis by (simp add: AdjustRoot_def)
  qed
qed

lemma FindLeftSibling_pins:
  assumes run: "FindLeftSibling node (Some txn) t = Ok (ret, transaction1, t1)"
    and con: "page_ids_consistent t"
  shows "transaction1 \<noteq> None
     \<and> (\<forall>q. pins t1 q - held transaction1 q = pins t q - held (Some txn) q)
     \<and> page_ids_consistent t1"
proof -
  from run obtain nodePage parentId nodeId where
    h: "deref t node = Ok nodePage" "Page_GetParentPageId nodePage = Ok parentId"
    "Page_GetPageId nodePage = Ok nodeId"
    by (auto simp: FindLeftSibling_def split: result.splits)
  from run h obtain parent u1 where
    f: "Tree_FetchPage t parentId = Ok (INTERNAL_PAGE parent, u1)"
    by (auto simp: FindLeftSibling_def split: result.splits prod.splits Page.splits)
  from run h f obtain siblingId sibling t2 parent1 where
    c: "CrabingProtocalFetchPage siblingId OpType_DELETE (- 1) (Some txn) u1
          = Ok (sibling, transaction1, t2)"
    and i: "internal_of t2 parentId = Ok parent1"
    and t1: "t1 = unpin t2 (page_id_' parent1) False"
    by (auto simp: FindLeftSibling_def Let_def split: result.splits)
  note a = Tree_FetchPage_pins[OF f] Tree_FetchPage_consistent[OF f con]
  note b = CrabingProtocalFetchPage_Some[OF c]
  from a b have c2: "page_ids_consistent t2" by (auto intro: consistent_map_le)
  from internal_of_id[OF i c2] have id: "page_id_' parent1 = parentId" .
  have "pins t1 q - held transaction1 q = pins t q - held (Some txn) q" for q
    using b[THEN conjunct2, THEN conjunct2, THEN conjunct1, rule_format, of q] a(1)
    unfolding t1 id by (simp split: if_splits)
  with b c2 show ?thesis by (simp add: t1)
qed

lemma Coalesce_pins:
  assumes run: "Coalesce rec neighbor_node node parent index (Some txn) t
                  = Ok (ret, transaction1, t1)"
    and con: "page_ids_consistent t"
    and rec: "\<forall>p txn0 (s :: ('k, 'v) BPlusTree) r transaction2 s1.
                rec p (Some txn0) s = Ok (r, transaction2, s1) \<longrightarrow> page_ids_consistent s \<longrightarrow>
                  transaction2 \<noteq> None
                  \<and> (\<forall>q. pins s1 q - held transaction2 q = pins s q - held (Some txn0) q)
                  \<and> page_ids_consistent s1"
  shows "transaction1 \<noteq> None
     \<and> (\<forall>q. pins t1 q - held transaction1 q = pins t q - held (Some txn) q)
     \<and> page_ids_consistent t1"
proof -
  from run obtain u nodePage1 nodeId transaction0 parentPage parentPage1 where
    m: "MoveAllTo node neighbor_node index t = Ok u"
    and d: "deref u node = Ok nodePage1" "Page_GetPageId nodePage1 = Ok nodeId"
    and a: "AddIntoDeletedPageSet (Some txn) nodeId = Ok transaction0"
    and i: "internal_of u parent = Ok parentPage"
    and r: "Internal_Remove parentPage index = Ok parentPage1"
    by (auto simp: Coalesce_def split: result.splits if_splits)
  define t2 where "t2 = set_page u parent (INTERNAL_PAGE parentPage1)"
  from run m d a i r have
    res: "(if GetSize parentPage1 \<le> GetMinSize False parentPage1
           then rec parent transaction0 t2 else Ok (False, transaction0, t2))
          = Ok (ret, transaction1, t1)"
    by (auto simp: Coalesce_def Let_def t2_def split: result.splits if_splits)
  note b = MoveAllTo_pins[OF m con]
  from internal_of_id[OF i] page_id_Internal_Remove[OF r] b have c2: "page_ids_consistent t2"
    unfolding t2_def by (simp add: consistent_set_internal)
  from b have p2: "pins t2 = pins t" by (simp add: t2_def)
  from held_AddIntoDeletedPageSet[OF a] obtain txn0 where
    t0: "transaction0 = Some txn0" "held (Some txn0) = held (Some txn)"
    by auto
  show ?thesis
  proof (cases "GetSize parentPage1 \<le> GetMinSize False parentPage1")
    case True
    with res t0 have "rec parent (Some txn0) t2 = Ok (ret, transaction1, t1)" by simp
    with rec c2 have "transaction1 \<noteq> None
        \<and> (\<forall>q. pins t1 q - held transaction1 q = pins t2 q - held (Some txn0) q)
        \<and> page_ids_consistent t1"
      by blast
    with p2 t0 show ?thesis by simp
  next
    case False
    with res t0 c2 p2 show ?thesis by auto
  qed
qed

lemma CoalesceOrRedistribute_pins:
  fixes t :: "('k, 'v) BPlusTree"
  shows "CoalesceOrRedistribute fuel node (Some txn) t = Ok (ret, transaction1, t1) \<Longrightarrow>
   page_ids_consistent t \<Longrightarrow>
     transaction1 \<noteq> None
     \<and> (\<forall>q. pins t1 q - held transaction1 q = pins t q - held (Some txn) q)
     \<and> page_ids_consistent t1"
proof (induction fuel arbitrary: node txn t ret transaction1 t1)
  case 0
  then show ?case by simp
next
  case (Suc fuel)
  define t0 where "t0 = t\<lparr>CoalesceOrRedistribute_calls := CoalesceOrRedistribute_calls t @ [node]\<rparr>"
  have p0: "pins t0 = pins t" and c0: "page_ids_consistent t0"
    using Suc.prems(2) by (simp_all add: t0_def)
  note run = Suc.prems(1)[simplified CoalesceOrRedistribute.simps Let_def, folded t0_def]
  have IH: "\<forall>p txn0 (s :: ('k, 'v) BPlusTree) r transaction2 s1.
              CoalesceOrRedistribute fuel p (Some txn0) s = Ok (r, transaction2, s1) \<longrightarrow>
              page_ids_consistent s \<longrightarrow>
                transaction2 \<noteq> None
                \<and> (\<forall>q. pins s1 q - held transaction2 q = pins s q - held (Some txn0) q)
                \<and> page_ids_consistent s1"
    by (intro allI impI) (erule (1) Suc.IH)
  from run obtain nodePage parentId where
    h: "deref t0 node = Ok nodePage" "Page_GetParentPageId nodePage = Ok parentId"
    by (auto split: result.splits)
  show ?case
  proof (cases "parentId = INVALID_PAGE_ID")
    case True
    with run h obtain del u where a: "AdjustRoot node t0 = Ok (del, u)" and t1: "t1 = u"
      and tr: "if del then (\<exists>nodeId. AddIntoDeletedPageSet (Some txn) nodeId = Ok transaction1)
               else transaction1 = Some txn"
      by (auto split: result.splits prod.splits if_splits)
    from tr have "transaction1 \<noteq> None \<and> held transaction1 = held (Some txn)"
      by (auto split: if_splits dest: held_AddIntoDeletedPageSet)
    with AdjustRoot_pins[OF a c0] p0 t1 show ?thesis by simp
  next
    case False
    with run h obtain sib transactionA tA where
      fl: "FindLeftSibling node (Some txn) t0 = Ok (sib, transactionA, tA)"
      by (auto split: result.splits prod.splits)
    note a = FindLeftSibling_pins[OF fl c0]
    then obtain txnA where tA: "transactionA = Some txnA" by auto
    from run h False fl obtain parentPage t2 where
      f: "Tree_FetchPage tA parentId = Ok (INTERNAL_PAGE parentPage, t2)"
      by (auto split: result.splits prod.splits Page.splits)
    from a have cA: "page_ids_consistent tA" by simp
    note b = Tree_FetchPage_internal[OF f cA]
    from b have c2: "page_ids_consistent t2" by simp
    from run h False fl f obtain t3 parentPage1 dirty where
      step: "(\<exists>earlier later removeIndex r.
                Coalesce (CoalesceOrRedistribute fuel) earlier later parentId removeIndex
                  (Some txnA) t2 = Ok (r, transaction1, t3))
             \<or> (\<exists>node2 index. Redistribute node2 node index t2 = Ok t3
                              \<and> transaction1 = Some txnA)"
      and i: "internal_of t3 parentId = Ok parentPage1"
      and t1: "t1 = unpin t3 (page_id_' parentPage1) dirty"
      unfolding tA
      by (auto simp: Let_def split: result.splits prod.splits if_splits; blast)
    from step have d: "transaction1 \<noteq> None
        \<and> (\<forall>q. pins t3 q - held transaction1 q = pins t2 q - held (Some txnA) q)
        \<and> page_ids_consistent t3"
    proof
      assume "\<exists>earlier later removeIndex r.
                Coalesce (CoalesceOrRedistribute fuel) earlier later parentId removeIndex
                  (Some txnA) t2 = Ok (r, transaction1, t3)"
      then obtain earlier later removeIndex r where
        "Coalesce (CoalesceOrRedistribute fuel) earlier later parentId removeIndex
           (Some txnA) t2 = Ok (r, transaction1, t3)"
        by blast
      from Coalesce_pins[OF this c2 IH] show ?thesis .
    next
      assume "\<exists>node2 index. Redistribute node2 node index t2 = Ok t3 \<and> transaction1 = Some txnA"
      then obtain node2 index where r: "Redistribute node2 node index t2 = Ok t3"
        and "transaction1 = Some txnA" by blast
      with Redistribute_pins[OF r c2] show ?thesis by simp
    qed
    from internal_of_id[OF i] d have id: "page_id_' parentPage1 = parentId" by simp
    have "pins t1 q - held transaction1 q = pins t q - held (Some txn) q" for q
    proof -
      from b have "pins tA q = (if q = parentId then pins t2 q - 1 else pins t2 q)"
        by (auto simp: fun_eq_iff split: if_splits)
      with d[THEN conjunct2, THEN conjunct1, rule_format, of q]
        a[THEN conjunct2, THEN conjunct1, rule_format, of q]
      show ?thesis unfolding t1 id tA p0 by (simp split: if_splits)
    qed
    with d show ?thesis by (simp add: t1)
  qed
qed

lemma FindLeftSibling_None:
  "FindLeftSibling node None t = Ok (ret, transaction1, t1) \<Longrightarrow> transaction1 = None"
  by (auto simp: FindLeftSibling_def Let_def split: result.splits prod.splits Page.splits
      dest: CrabingProtocalFetchPage_None)

lemma Coalesce_None:
  "Coalesce rec neighbor_node node parent index None t \<noteq> Ok ret"
  by (auto simp: Coalesce_def AddIntoDeletedPageSet_def split: result.splits)

lemma CoalesceOrRedistribute_None:
  assumes "CoalesceOrRedistribute fuel node None t = Ok (ret, transaction1, t1)"
  shows "transaction1 = None"
proof (cases fuel)
  case 0
  with assms show ?thesis by simp
next
  case (Suc n)
  with assms show ?thesis
    by (auto simp: Let_def AddIntoDeletedPageSet_def Coalesce_None
        split: result.splits prod.splits Page.splits if_splits
        dest!: FindLeftSibling_None)
qed

lemma Remove_pins:
  assumes run: "Remove fuel comparator key transaction t = Ok (transaction1, t1)"
    and con: "page_ids_consistent t"
    and empty: "\<forall>q. held transaction q = 0"
  shows "pins t1 = pins t \<and> page_ids_consistent t1 \<and> (\<forall>q. held transaction1 q = 0)"
proof (cases "IsEmpty t")
  case True
  with run con empty show ?thesis by (simp add: Remove_def)
next
  case ne: False
  with run obtain leaf transaction0 t0 where
    find: "FindLeafPage fuel comparator key False OpType_DELETE transaction t
             = Ok (leaf, transaction0, t0)"
    by (auto simp: Remove_def split: result.splits)
  note f = FindLeafPage_excess[OF find ne con]
  then obtain delTar where leaf: "leaf = Some delTar" by auto
  from f have c0: "page_ids_consistent t0" by simp
  from run ne find leaf obtain p p1 where
    p: "leaf_at t0 delTar = Ok p" and del: "RemoveAndDeleteRecord p key comparator = Ok p1"
    by (auto simp: Remove_def split: result.splits)
  define t2 where "t2 = set_page t0 delTar (LEAF_PAGE p1)"
  from leaf_at_id[OF p c0] page_id_RemoveAndDeleteRecord[OF del] c0 have c2: "page_ids_consistent t2"
    unfolding t2_def by (simp add: consistent_set_leaf)
  have p2: "pins t2 = pins t0" by (simp add: t2_def)
  from run ne find leaf p del obtain transaction3 t4 where
    mid: "(if GetSize p1 < GetMinSize True p1
           then (\<exists>deleted. CoalesceOrRedistribute fuel delTar transaction0 t2
                            = Ok (deleted, transaction3, t4))
           else transaction3 = transaction0 \<and> t4 = t2)"
    and free: "FreePagesInTransaction True transaction3 (- 1) t4 = Ok (transaction1, t1)"
    by (auto simp: Remove_def Let_def t2_def split: result.splits prod.splits if_splits)
  have txn: "transaction \<noteq> None"
  proof
    assume n: "transaction = None"
    with f have n0: "transaction0 = None" by simp
    have "transaction3 = None"
    proof (cases "GetSize p1 < GetMinSize True p1")
      case True
      with mid n0 obtain deleted where
        "CoalesceOrRedistribute fuel delTar None t2 = Ok (deleted, transaction3, t4)" by auto
      from CoalesceOrRedistribute_None[OF this] show ?thesis .
    next
      case False
      with mid n0 show ?thesis by simp
    qed
    with free show False by (auto dest: FreePagesInTransaction_None)
  qed
  then obtain txn where some: "transaction = Some txn" by auto
  from f txn empty have e0: "\<forall>q. pins t0 q - held transaction0 q = pins t q" by simp
  from FindLeafPage_Some[OF find[unfolded some]] obtain txn0 where
    t0: "transaction0 = Some txn0" by auto
  have "(\<forall>q. pins t4 q - held transaction3 q = pins t q) \<and> page_ids_consistent t4"
  proof (cases "GetSize p1 < GetMinSize True p1")
    case True
    with mid t0 obtain deleted where
      c: "CoalesceOrRedistribute fuel delTar (Some txn0) t2 = Ok (deleted, transaction3, t4)"
      by auto
    note b = CoalesceOrRedistribute_pins[OF c c2]
    have "pins t4 q - held transaction3 q = pins t q" for q
      using b[THEN conjunct2, THEN conjunct1, rule_format, of q] e0[rule_format, of q]
      unfolding p2 t0 by linarith
    with b show ?thesis by simp
  next
    case False
    with mid e0 p2 c2 show ?thesis by simp
  qed
  then have "\<forall>q. pins t4 q - held transaction3 q = pins t q" "page_ids_consistent t4"
    by simp_all
  from FreePagesInTransaction_exclusive[OF free this] show ?thesis .
qed

text \<open>
  C8. Pin balance. In a buffer pool whose tree pages carry their own page id
  (\<open>page_ids_consistent\<close>) and whose internal pages have positive page ids
  (\<open>internal_ids_positive\<close>; page 0 is the header page), and with a transaction, if
  there is one, that holds no page when the operation starts: whenever
  \<^verbatim>\<open>GetValue\<close>, \<^verbatim>\<open>Insert\<close>, \<^verbatim>\<open>Remove\<close> or an iteration from
  \<^verbatim>\<open>Begin()\<close> or \<^verbatim>\<open>Begin(key)\<close> up to \<^verbatim>\<open>isEnd()\<close> completes, the pin
  count of every page is what it was before the operation: every pin taken has been
  matched by exactly one unpin. In particular, when no page was pinned before, no page
  is pinned after.
\<close>

theorem pin_balance:
  fixes t :: "('k, 'v) BPlusTree"
  assumes con: "page_ids_consistent t" and pos: "internal_ids_positive t"
    and empty: "\<forall>txn. transaction = Some txn \<longrightarrow> page_set_' txn = []"
  shows
  "(\<forall>ret transaction1 t1.
      GetValue fuel comparator key transaction t = Ok (ret, transaction1, t1) \<longrightarrow>
        pins t1 = pins t)
   \<and> (\<forall>ret transaction1 t1.
        Insert fuel comparator key val transaction t = Ok (ret, transaction1, t1) \<longrightarrow>
          pins t1 = pins t)
   \<and> (\<forall>transaction1 t1.
        Remove fuel comparator key transaction t = Ok (transaction1, t1) \<longrightarrow>
          pins t1 = pins t)
   \<and> (\<forall>t1. scan_from_Begin fuel steps comparator key t = Ok t1 \<longrightarrow> pins t1 = pins t)
   \<and> (\<forall>t1. scan_from_Begin_key fuel steps comparator key t = Ok t1 \<longrightarrow> pins t1 = pins t)"
proof -
  from empty have held: "\<forall>q. held transaction q = 0"
    by (cases transaction) (simp_all add: held_def)
  show ?thesis
  proof (intro conjI allI impI)
    fix ret transaction1 t1
    assume "GetValue fuel comparator key transaction t = Ok (ret, transaction1, t1)"
    from GetValue_pins[OF this pos con held] show "pins t1 = pins t" by simp
  next
    fix ret transaction1 t1
    assume "Insert fuel comparator key val transaction t = Ok (ret, transaction1, t1)"
    from Insert_pins[OF this con held] show "pins t1 = pins t" by simp
  next
    fix transaction1 t1
    assume "Remove fuel comparator key transaction t = Ok (transaction1, t1)"
    from Remove_pins[OF this con held] show "pins t1 = pins t" by simp
  next
    fix t1
    assume "scan_from_Begin fuel steps comparator key t = Ok t1"
    from scan_from_Begin_pins[OF this pos con] show "pins t1 = pins t" .
  next
    fix t1
    assume "scan_from_Begin_key fuel steps comparator key t = Ok t1"
    from scan_from_Begin_key_pins[OF this pos con] show "pins t1 = pins t" .
  qed
qed

theorem pin_balance_witness:
  "page_ids_consistent example_tree \<and> internal_ids_positive example_tree
   \<and> pins example_tree = (\<lambda>page_id. 0)
   \<and> is_Ok (GetValue 3 IntComparator 7 (Some (new_Transaction 0)) example_tree)
   \<and> pins (snd (snd (the_Ok (GetValue 3 IntComparator 7 (Some (new_Transaction 0)) example_tree))))
       = (\<lambda>page_id. 0)
   \<and> is_Ok (Insert 3 IntComparator 3 (3, 0) (Some (new_Transaction 0)) example_tree_full_leaf)
   \<and> fst (the_Ok (Insert 3 IntComparator 3 (3, 0) (Some (new_Transaction 0)) example_tree_full_leaf))
   \<and> pins (snd (snd (the_Ok (Insert 3 IntComparator 3 (3, 0) (Some (new_Transaction 0))
                                 example_tree_full_leaf))))
       = (\<lambda>page_id. 0)
   \<and> is_Ok (Remove 3 IntComparator 7 (Some (new_Transaction 0)) example_tree)
   \<and> pins (snd (the_Ok (Remove 3 IntComparator 7 (Some (new_Transaction 0)) example_tree)))
       = (\<lambda>page_id. 0)
   \<and> is_Ok (scan_from_Begin 3 5 IntComparator 7 example_tree)
   \<and> pins (the_Ok (scan_from_Begin 3 5 IntComparator 7 example_tree)) = (\<lambda>page_id. 0)
   \<and> is_Ok (scan_from_Begin_key 3 5 IntComparator 7 example_tree)
   \<and> pins (the_Ok (scan_from_Begin_key 3 5 IntComparator 7 example_tree)) = (\<lambda>page_id. 0)"
proof -
  let ?txn = "Some (new_Transaction 0)"
  let ?G = "GetValue 3 IntComparator 7 ?txn example_tree"
  let ?I = "Insert 3 IntComparator 3 (3, 0) ?txn example_tree_full_leaf"
  let ?R = "Remove 3 IntComparator 7 ?txn example_tree"
  let ?B = "scan_from_Begin 3 5 IntComparator 7 example_tree"
  let ?K = "scan_from_Begin_key 3 5 IntComparator 7 example_tree"
  have con: "page_ids_consistent example_tree"
    by (auto simp: page_ids_consistent_def page_at_def example_tree_def split: if_splits)
  have pos: "internal_ids_positive example_tree"
    by (auto simp: internal_ids_positive_def page_at_def example_tree_def split: if_splits)
  have zero: "pins example_tree = (\<lambda>page_id. 0)"
    by (simp add: pins_def example_tree_def)
  have empty: "\<forall>txn. ?txn = Some txn \<longrightarrow> page_set_' txn = []"
    by (simp add: new_Transaction_def)
  have con_full: "page_ids_consistent example_tree_full_leaf"
    unfolding example_tree_full_leaf_def using con by (rule consistent_set_leaf) simp
  have pos_full: "internal_ids_positive example_tree_full_leaf"
    using pos by (simp add: internal_ids_positive_def example_tree_full_leaf_def)
  have zero_full: "pins example_tree_full_leaf = (\<lambda>page_id. 0)"
    by (simp add: example_tree_full_leaf_def zero)
  note inst = pin_balance[OF con pos empty, where fuel = 3 and comparator = IntComparator
      and key = 7 and steps = 5]
  note inst_full = pin_balance[OF con_full pos_full empty, where fuel = 3
      and comparator = IntComparator and key = 3 and val = "(3, 0)"]
  have G: "is_Ok ?G" by code_simp
  have g: "?G = Ok (fst (the_Ok ?G), fst (snd (the_Ok ?G)), snd (snd (the_Ok ?G)))"
    using is_Ok_the_Ok[OF G] by simp
  have I: "is_Ok ?I" by code_simp
  have I1: "fst (the_Ok ?I)" by code_simp
  have i: "?I = Ok (fst (the_Ok ?I), fst (snd (the_Ok ?I)), snd (snd (the_Ok ?I)))"
    using is_Ok_the_Ok[OF I] by simp
  have R: "is_Ok ?R" by code_simp
  have r: "?R = Ok (fst (the_Ok ?R), snd (the_Ok ?R))" using is_Ok_the_Ok[OF R] by simp
  have B: "is_Ok ?B" by code_simp
  have b: "?B = Ok (the_Ok ?B)" using is_Ok_the_Ok[OF B] .
  have K: "is_Ok ?K" by code_simp
  have k: "?K = Ok (the_Ok ?K)" using is_Ok_the_Ok[OF K] .
  from inst g have "pins (snd (snd (the_Ok ?G))) = pins example_tree" by blast
  moreover from inst_full i have "pins (snd (snd (the_Ok ?I))) = pins example_tree_full_leaf"
    by blast
  moreover from inst r have "pins (snd (the_Ok ?R)) = pins example_tree" by blast
  moreover from inst b have "pins (the_Ok ?B) = pins example_tree" by blast
  moreover from inst k have "pins (the_Ok ?K) = pins example_tree" by blast
  ultimately show ?thesis using con pos zero zero_full G I I1 R B K by simp
qed

end
